theory Spec2Isabelle
  imports Main "HOL-Library.Log_Nat" "HOL-Library.Word" "HOL-Library.Monad_Syntax"
begin

section \<open>Arithmetic of the target platform\<close>

text \<open>
  The development follows the branch of \<^verbatim>\<open>profiler.h\<close> that is compiled when
  \<^verbatim>\<open>API_PROFILER_UNIX\<close> is defined, on an LP64 platform: \<^verbatim>\<open>long\<close>, \<^verbatim>\<open>time_t\<close> and
  \<^verbatim>\<open>long long\<close> are 64-bit signed integers, \<^verbatim>\<open>double\<close> is IEEE 754 binary64 with
  round-to-nearest, ties-to-even, and every floating-point operation is rounded on its own.

  Signed integers are modelled as \<^typ>\<open>int\<close>. An operation whose mathematical result does
  not fit the type is undefined behaviour in C++; the model returns \<^const>\<open>None\<close> there.
\<close>

definition LLONG_MIN :: int where
  "LLONG_MIN = - (2 ^ 63)"

definition LLONG_MAX :: int where
  "LLONG_MAX = 2 ^ 63 - 1"

definition ll :: "int \<Rightarrow> int option" where
  \<comment> \<open>the result of a signed 64-bit operation whose exact value is \<open>v\<close>\<close>
  "ll v = (if LLONG_MIN \<le> v \<and> v \<le> LLONG_MAX then Some v else None)"

definition cdiv :: "int \<Rightarrow> int \<Rightarrow> int" where
  \<comment> \<open>the operator \<^verbatim>\<open>/\<close> on integers: the quotient truncated towards zero\<close>
  "cdiv a b = sgn a * sgn b * (\<bar>a\<bar> div \<bar>b\<bar>)"

subsection \<open>binary64\<close>

definition round_even :: "rat \<Rightarrow> int" where
  \<comment> \<open>the nearest integer, a tie going to the even one\<close>
  "round_even x =
     (let f = \<lfloor>x\<rfloor>; d = x - of_int f
      in if d < 1 / 2 then f
         else if 1 / 2 < d then f + 1
         else if even f then f else f + 1)"

definition binade :: "rat \<Rightarrow> int" where
  \<comment> \<open>for \<open>0 < x\<close>, the exponent \<open>e\<close> with \<open>2 ^ e \<le> x < 2 ^ (e + 1)\<close>\<close>
  "binade x = (if 1 \<le> x then bitlen \<lfloor>x\<rfloor> - 1 else - bitlen (\<lceil>1 / x\<rceil> - 1))"

definition rd :: "rat \<Rightarrow> rat" where
  \<comment> \<open>a non-negative magnitude rounded to 53 significant bits; below \<open>2 ^ - 1022\<close> the
     spacing stays that of the subnormal numbers\<close>
  "rd x = (if x = 0 then 0
           else let e = max (binade x) (- 1022) - 52
                in of_int (round_even (x / 2 powi e)) * 2 powi e)"

datatype double = Finite bool rat | Infinite bool | NaN
  \<comment> \<open>sign (\<open>True\<close> is negative) and magnitude\<close>

definition mk_double :: "bool \<Rightarrow> rat \<Rightarrow> double" where
  \<comment> \<open>the binary64 value for the exact magnitude \<open>x\<close>; a rounded magnitude of \<open>2 ^ 1024\<close>
     or more overflows to infinity\<close>
  "mk_double s x = (let r = rd x in if 2 ^ 1024 \<le> r then Infinite s else Finite s r)"

definition double_of_int :: "int \<Rightarrow> double" where
  \<comment> \<open>the conversion of an integer, and of a literal with an integral value\<close>
  "double_of_int n = mk_double (n < 0) (of_int \<bar>n\<bar>)"

fun dmul :: "double \<Rightarrow> double \<Rightarrow> double" where
  "dmul (Finite s x) (Finite t y) = mk_double (s \<noteq> t) (x * y)"
| "dmul (Finite s x) (Infinite t) = (if x = 0 then NaN else Infinite (s \<noteq> t))"
| "dmul (Infinite s) (Finite t y) = (if y = 0 then NaN else Infinite (s \<noteq> t))"
| "dmul (Infinite s) (Infinite t) = Infinite (s \<noteq> t)"
| "dmul _ _ = NaN"

fun ddiv :: "double \<Rightarrow> double \<Rightarrow> double" where
  "ddiv (Finite s x) (Finite t y) =
     (if y = 0 then (if x = 0 then NaN else Infinite (s \<noteq> t))
      else mk_double (s \<noteq> t) (x / y))"
| "ddiv (Finite s x) (Infinite t) = Finite (s \<noteq> t) 0"
| "ddiv (Infinite s) (Finite t y) = Infinite (s \<noteq> t)"
| "ddiv _ _ = NaN"

fun dadd :: "double \<Rightarrow> double \<Rightarrow> double" where
  "dadd (Finite s x) (Finite t y) =
     (if s = t then mk_double s (x + y)
      else if x = y then Finite False 0
      else if y < x then mk_double s (x - y)
      else mk_double t (y - x))"
| "dadd (Finite s x) (Infinite t) = Infinite t"
| "dadd (Infinite s) (Finite t y) = Infinite s"
| "dadd (Infinite s) (Infinite t) = (if s = t then Infinite s else NaN)"
| "dadd _ _ = NaN"

definition ll_of_double :: "double \<Rightarrow> int option" where
  \<comment> \<open>the conversion to \<^verbatim>\<open>long long\<close>: the fraction is discarded; undefined when the
     truncated value has no \<^verbatim>\<open>long long\<close>\<close>
  "ll_of_double d =
     (case d of
        Finite s x \<Rightarrow> ll (if s then - \<lfloor>x\<rfloor> else \<lfloor>x\<rfloor>)
      | Infinite s \<Rightarrow> None
      | NaN \<Rightarrow> None)"

section \<open>The profiler's data\<close>

record timespec =
  tv_sec :: int
  tv_nsec :: int

record ThreadInfo =
  lastReportTime :: timespec
  accumulator :: int
  hitCount :: int
  name :: string

type_synonym pthread_t = "64 word"

type_synonym handle = "pthread_t \<times> string"
  \<comment> \<open>the address of \<^verbatim>\<open>__APIProfiler_<name>\<close> in one thread: the variable is
     \<^verbatim>\<open>thread_local\<close>, so every thread has its own\<close>

record APIProfiler =
  m_threadInfo :: handle
  m_start :: timespec

datatype arg = Long int | Str string | Dbl double

record process =
  s_reportInterval :: int
  threadInfos :: "handle \<Rightarrow> ThreadInfo"
  stdout :: "(string \<times> arg list) list"
  flushCalls :: nat

text \<open>
  \<^const>\<open>stdout\<close> lists the calls of \<^verbatim>\<open>printf\<close> in order, each with its format and its
  arguments. \<^const>\<open>flushCalls\<close> counts the entries into \<^verbatim>\<open>Flush\<close>; the program has no such
  variable and nothing in the model reads it: it is there for the theorems to observe.
\<close>

definition zero_time :: timespec where
  "zero_time = \<lparr>tv_sec = 0, tv_nsec = 0\<rparr>"

definition DEFINE_API_PROFILER :: "string \<Rightarrow> ThreadInfo" where
  "DEFINE_API_PROFILER n =
     \<lparr>lastReportTime = zero_time, accumulator = 0, hitCount = 0, name = n\<rparr>"

definition initial_process :: process where
  "initial_process =
     \<lparr>s_reportInterval = 0,
      threadInfos = (\<lambda>(t, n). DEFINE_API_PROFILER n),
      stdout = [],
      flushCalls = 0\<rparr>"

section \<open>The measurement guard\<close>

definition nanosec :: "timespec \<Rightarrow> int option" where
  \<comment> \<open>\<^verbatim>\<open>long long xNanoSec = x.tv_sec * 1e9 + x.tv_nsec\<close>: the product and the sum are
     computed in \<^verbatim>\<open>double\<close>, then converted\<close>
  "nanosec x =
     ll_of_double
       (dadd (dmul (double_of_int (tv_sec x)) (double_of_int 1000000000))
             (double_of_int (tv_nsec x)))"

definition APIProfiler_ctor :: "timespec \<Rightarrow> handle \<Rightarrow> APIProfiler" where
  \<comment> \<open>\<open>now\<close> is what \<^verbatim>\<open>clock_gettime(CLOCK_MONOTONIC, &m_start)\<close> stores\<close>
  "APIProfiler_ctor now threadInfo = \<lparr>m_threadInfo = threadInfo, m_start = now\<rparr>"

definition APIProfiler_ReportIntervalSecs :: double where
  "APIProfiler_ReportIntervalSecs = double_of_int 1"

definition Flush_format :: string where
  \<open>Flush_format =
     ''TID %ld time spent in "%s": %.0f/%.0f microsec %.1f%% %lldx'' @ [CHR 0x0A]\<close>

definition Flush_interval :: "timespec \<Rightarrow> timespec \<Rightarrow> double option" where
  \<comment> \<open>the initialiser of \<^verbatim>\<open>interval\<close>: the difference in nanoseconds in integer
     arithmetic, converted, then divided by \<^verbatim>\<open>1000.0f\<close>\<close>
  "Flush_interval lastReport endTime = do {
     ds \<leftarrow> ll (tv_sec endTime - tv_sec lastReport);
     a \<leftarrow> ll (ds * 1000000000);
     dn \<leftarrow> ll (tv_nsec endTime - tv_nsec lastReport);
     ns \<leftarrow> ll (a + dn);
     Some (ddiv (double_of_int ns) (double_of_int 1000))
   }"

definition Flush :: "pthread_t \<Rightarrow> APIProfiler \<Rightarrow> timespec \<Rightarrow> process \<Rightarrow> process option" where
  \<comment> \<open>\<open>self\<close> is what \<^verbatim>\<open>pthread_self()\<close> returns; \<^verbatim>\<open>%ld\<close> reads it as a \<^verbatim>\<open>long\<close>\<close>
  "Flush self this endTime p = do {
     ri \<leftarrow> (if s_reportInterval p = 0
            then ll_of_double (dmul (double_of_int 1000000) APIProfiler_ReportIntervalSecs)
            else Some (s_reportInterval p));
     let p = p\<lparr>s_reportInterval := ri, flushCalls := Suc (flushCalls p)\<rparr>;
     let ti = threadInfos p (m_threadInfo this);
     if tv_sec (lastReportTime ti) = 0 \<and> tv_nsec (lastReportTime ti) = 0
     then Some (p\<lparr>threadInfos := (threadInfos p)
                  (m_threadInfo this := ti\<lparr>lastReportTime := m_start this\<rparr>)\<rparr>)
     else do {
       interval \<leftarrow> Flush_interval (lastReportTime ti) endTime;
       let measured = double_of_int (accumulator ti);
       let call = (Flush_format,
                   [Long (sint self), Str (name ti), Dbl measured, Dbl interval,
                    Dbl (ddiv (dmul (double_of_int 100) measured) interval),
                    Long (hitCount ti)]);
       Some (p\<lparr>stdout := stdout p @ [call],
               threadInfos := (threadInfos p)
                 (m_threadInfo this :=
                    ti\<lparr>lastReportTime := endTime, accumulator := 0, hitCount := 0\<rparr>)\<rparr>)
     }
   }"

definition APIProfiler_dtor :: "pthread_t \<Rightarrow> timespec \<Rightarrow> APIProfiler \<Rightarrow> process \<Rightarrow> process option" where
  \<comment> \<open>\<open>endTime\<close> is what \<^verbatim>\<open>clock_gettime(CLOCK_MONOTONIC, &end)\<close> stores\<close>
  "APIProfiler_dtor self endTime this p = do {
     let ti = threadInfos p (m_threadInfo this);
     startNanoSec \<leftarrow> nanosec (m_start this);
     endNanoSec \<leftarrow> nanosec endTime;
     lastReportNanoSec \<leftarrow> nanosec (lastReportTime ti);
     d \<leftarrow> ll (endNanoSec - startNanoSec);
     acc \<leftarrow> ll (accumulator ti + cdiv d 1000);
     hits \<leftarrow> ll (hitCount ti + 1);
     let p = p\<lparr>threadInfos := (threadInfos p)
                (m_threadInfo this := ti\<lparr>accumulator := acc, hitCount := hits\<rparr>)\<rparr>;
     e \<leftarrow> ll (endNanoSec - lastReportNanoSec);
     if s_reportInterval p < cdiv e 1000 then Flush self this endTime p else Some p
   }"

text \<open>
  One measured scope: \<^verbatim>\<open>API_PROFILER(name)\<close> declares a guard on the executing thread's
  record of the region, the guard is destroyed when the scope is left. The construction
  changes nothing but the guard, so a run is determined by the scopes in the order in
  which they are left.
\<close>

record scope =
  thread :: pthread_t
  region :: string
  entered :: timespec
  left :: timespec

definition API_PROFILER :: "scope \<Rightarrow> process \<Rightarrow> process option" where
  "API_PROFILER sc p =
     APIProfiler_dtor (thread sc) (left sc)
       (APIProfiler_ctor (entered sc) (thread sc, region sc)) p"

fun run :: "process \<Rightarrow> scope list \<Rightarrow> process option" where
  "run p [] = Some p"
| "run p (sc # scs) = (case API_PROFILER sc p of None \<Rightarrow> None | Some p' \<Rightarrow> run p' scs)"

section \<open>The text of a report\<close>

text \<open>
  \<^verbatim>\<open>printf\<close> copies its format to the stream and replaces each conversion by the rendering
  of the next argument. How the C library renders a number is not part of the profiler: it is
  the parameter \<open>conv\<close>, which receives the conversion (flags, precision, length and letter, as
  written after the \<^verbatim>\<open>%\<close>) and the argument. A conversion without an argument of its kind has
  no defined result.
\<close>

datatype piece = Text string | Field string arg

definition conversion_letters :: string where
  "conversion_letters = ''diouxXfFeEgGaAcsp''"

fun accepts :: "char \<Rightarrow> arg \<Rightarrow> bool" where
  "accepts c (Long n) = (c \<in> set ''diouxXc'')"
| "accepts c (Dbl d) = (c \<in> set ''fFeEgGaA'')"
| "accepts c (Str t) = (c = CHR ''s'')"

fun scan :: "string option \<Rightarrow> string \<Rightarrow> arg list \<Rightarrow> piece list option" where
  "scan None [] args = Some []"
| "scan (Some spec) [] args = None"
| "scan None (c # cs) args =
     (if c = CHR ''%'' then scan (Some []) cs args
      else map_option (Cons (Text [c])) (scan None cs args))"
| "scan (Some spec) (c # cs) args =
     (if c = CHR ''%'' \<and> spec = [] then map_option (Cons (Text ''%'')) (scan None cs args)
      else if c \<in> set conversion_letters
      then (case args of
              [] \<Rightarrow> None
            | a # as \<Rightarrow>
                if accepts c a
                then map_option (Cons (Field (spec @ [c]) a)) (scan None cs as)
                else None)
      else scan (Some (spec @ [c])) cs args)"

fun render :: "(string \<Rightarrow> arg \<Rightarrow> string) \<Rightarrow> piece \<Rightarrow> string" where
  "render conv (Text t) = t"
| "render conv (Field spec (Str t)) = (if spec = ''s'' then t else conv spec (Str t))"
| "render conv (Field spec a) = conv spec a"

definition printf :: "(string \<Rightarrow> arg \<Rightarrow> string) \<Rightarrow> string \<times> arg list \<Rightarrow> string option" where
  "printf conv call = map_option (\<lambda>ps. concat (map (render conv) ps)) (scan None (fst call) (snd call))"

section \<open>What the claims speak of\<close>

definition elapsed :: "timespec \<Rightarrow> timespec \<Rightarrow> int option" where
  \<comment> \<open>the destructor's \<^verbatim>\<open>(bNanoSec - aNanoSec) / 1000LL\<close>: microseconds from \<open>a\<close> to \<open>b\<close>\<close>
  "elapsed a b = do {
     aNanoSec \<leftarrow> nanosec a;
     bNanoSec \<leftarrow> nanosec b;
     d \<leftarrow> ll (bNanoSec - aNanoSec);
     Some (cdiv d 1000)
   }"

definition delta :: "scope \<Rightarrow> int option" where
  "delta sc = elapsed (entered sc) (left sc)"

definition record_of :: "scope \<Rightarrow> handle" where
  "record_of sc = (thread sc, region sc)"

definition exact_ns :: "timespec \<Rightarrow> int" where
  \<comment> \<open>the nanoseconds a reading stands for\<close>
  "exact_ns x = tv_sec x * 1000000000 + tv_nsec x"

definition clock_ok :: "timespec \<Rightarrow> bool" where
  \<comment> \<open>a normalised reading of a clock that started at zero less than \<open>2 ^ 60\<close> ns
     (36 years) ago\<close>
  "clock_ok x \<longleftrightarrow>
     0 \<le> tv_sec x \<and> 0 \<le> tv_nsec x \<and> tv_nsec x < 1000000000 \<and> exact_ns x < 2 ^ 60"

definition scope_ok :: "scope \<Rightarrow> bool" where
  "scope_ok sc \<longleftrightarrow> clock_ok (entered sc) \<and> clock_ok (left sc)"

definition time_le :: "timespec \<Rightarrow> timespec \<Rightarrow> bool" where
  \<comment> \<open>the order of normalised readings\<close>
  "time_le a b \<longleftrightarrow> tv_sec a < tv_sec b \<or> (tv_sec a = tv_sec b \<and> tv_nsec a \<le> tv_nsec b)"

definition report_call :: "pthread_t \<Rightarrow> ThreadInfo \<Rightarrow> double \<Rightarrow> string \<times> arg list" where
  \<comment> \<open>the call of \<^verbatim>\<open>printf\<close> in \<^const>\<open>Flush\<close>, for the record as it is before the reset\<close>
  "report_call self ti interval =
     (Flush_format,
      [Long (sint self), Str (name ti), Dbl (double_of_int (accumulator ti)), Dbl interval,
       Dbl (ddiv (dmul (double_of_int 100) (double_of_int (accumulator ti))) interval),
       Long (hitCount ti)])"

definition counted :: "ThreadInfo \<Rightarrow> int \<Rightarrow> ThreadInfo" where
  \<comment> \<open>the record after \<^verbatim>\<open>accumulator += d; hitCount++\<close>\<close>
  "counted ti d = ti\<lparr>accumulator := accumulator ti + d, hitCount := hitCount ti + 1\<rparr>"

section \<open>A sample run\<close>

text \<open>
  Thread 7 measures the region \<open>db\<close> three times: 5 microseconds at 100 s, 3 microseconds
  right after, 7 microseconds one second later.
\<close>

definition db :: handle where
  "db = (7, ''db'')"

definition first_scope :: scope where
  "first_scope =
     \<lparr>thread = 7, region = ''db'',
      entered = \<lparr>tv_sec = 100, tv_nsec = 0\<rparr>, left = \<lparr>tv_sec = 100, tv_nsec = 5000\<rparr>\<rparr>"

definition second_scope :: scope where
  "second_scope =
     \<lparr>thread = 7, region = ''db'',
      entered = \<lparr>tv_sec = 100, tv_nsec = 6000\<rparr>, left = \<lparr>tv_sec = 100, tv_nsec = 9000\<rparr>\<rparr>"

definition third_scope :: scope where
  "third_scope =
     \<lparr>thread = 7, region = ''db'',
      entered = \<lparr>tv_sec = 101, tv_nsec = 0\<rparr>, left = \<lparr>tv_sec = 101, tv_nsec = 7000\<rparr>\<rparr>"

definition after_first :: process where
  "after_first =
     \<lparr>s_reportInterval = 1000000,
      threadInfos = (threadInfos initial_process)
        (db := \<lparr>lastReportTime = \<lparr>tv_sec = 100, tv_nsec = 0\<rparr>,
                accumulator = 5, hitCount = 1, name = ''db''\<rparr>),
      stdout = [],
      flushCalls = 1\<rparr>"

definition after_second :: process where
  "after_second =
     \<lparr>s_reportInterval = 1000000,
      threadInfos = (threadInfos initial_process)
        (db := \<lparr>lastReportTime = \<lparr>tv_sec = 100, tv_nsec = 0\<rparr>,
                accumulator = 8, hitCount = 2, name = ''db''\<rparr>),
      stdout = [],
      flushCalls = 1\<rparr>"

definition third_report :: "string \<times> arg list" where
  "third_report =
     (Flush_format,
      [Long 7, Str ''db'', Dbl (Finite False 15), Dbl (Finite False 1000007),
       Dbl (Finite False (6917480605276845 / 4611686018427387904)), Long 3])"

definition after_third :: process where
  "after_third =
     \<lparr>s_reportInterval = 1000000,
      threadInfos = (threadInfos initial_process)
        (db := \<lparr>lastReportTime = \<lparr>tv_sec = 101, tv_nsec = 7000\<rparr>,
                accumulator = 0, hitCount = 0, name = ''db''\<rparr>),
      stdout = [third_report],
      flushCalls = 2\<rparr>"

definition third_guard :: APIProfiler where
  "third_guard = APIProfiler_ctor \<lparr>tv_sec = 101, tv_nsec = 0\<rparr> db"

definition third_counted :: process where
  \<comment> \<open>the third destruction, between the update of the record and the call of \<^const>\<open>Flush\<close>\<close>
  "third_counted =
     after_second\<lparr>threadInfos := (threadInfos initial_process)
        (db := \<lparr>lastReportTime = \<lparr>tv_sec = 100, tv_nsec = 0\<rparr>,
                accumulator = 15, hitCount = 3, name = ''db''\<rparr>)\<rparr>"

definition fourth_scope :: scope where
  "fourth_scope =
     \<lparr>thread = 7, region = ''db'',
      entered = \<lparr>tv_sec = 101, tv_nsec = 10000\<rparr>, left = \<lparr>tv_sec = 101, tv_nsec = 12000\<rparr>\<rparr>"

definition fifth_scope :: scope where
  "fifth_scope =
     \<lparr>thread = 7, region = ''db'',
      entered = \<lparr>tv_sec = 101, tv_nsec = 20000\<rparr>, left = \<lparr>tv_sec = 101, tv_nsec = 29500\<rparr>\<rparr>"

definition after_fifth :: process where
  "after_fifth =
     \<lparr>s_reportInterval = 1000000,
      threadInfos = (threadInfos initial_process)
        (db := \<lparr>lastReportTime = \<lparr>tv_sec = 101, tv_nsec = 7000\<rparr>,
                accumulator = 11, hitCount = 2, name = ''db''\<rparr>),
      stdout = [third_report],
      flushCalls = 2\<rparr>"

section \<open>What holds of every state a run reaches\<close>

definition steady :: "process \<Rightarrow> bool" where
  "steady p \<longleftrightarrow>
     (s_reportInterval p = 0 \<or> s_reportInterval p = 1000000) \<and>
     (\<forall>h. clock_ok (lastReportTime (threadInfos p h))) \<and>
     (\<forall>h. lastReportTime (threadInfos p h) \<noteq> zero_time \<longrightarrow> s_reportInterval p = 1000000)"

section \<open>A scope entered 104 days after the clock's zero\<close>

text \<open>
  The guard is constructed \<open>2 ^ 53 + 1\<close> ns after the clock's zero and destroyed 999 ns later.
\<close>

definition late_scope :: scope where
  "late_scope =
     \<lparr>thread = 7, region = ''db'',
      entered = \<lparr>tv_sec = 9007199, tv_nsec = 254740993\<rparr>,
      left = \<lparr>tv_sec = 9007199, tv_nsec = 254741992\<rparr>\<rparr>"

definition after_late :: process where
  "after_late =
     \<lparr>s_reportInterval = 1000000,
      threadInfos = (threadInfos initial_process)
        (db := \<lparr>lastReportTime = \<lparr>tv_sec = 9007199, tv_nsec = 254740993\<rparr>,
                accumulator = 1, hitCount = 1, name = ''db''\<rparr>),
      stdout = [],
      flushCalls = 1\<rparr>"

section \<open>The macros in a client program\<close>

text \<open>
  A thread's code is built from the client's own steps on a state \<open>'u\<close> and the three macros.
  A block destroys the guards declared in it, the latest first, when it is left.
  \<open>enabled\<close> stands for \<^verbatim>\<open>ENABLE_API_PROFILER\<close>: when it is false the macros are defined empty
  and the class does not exist. \<open>clk\<close> lists what successive calls of \<^verbatim>\<open>clock_gettime\<close> store.
\<close>

datatype 'u stmt =
    Work "'u \<Rightarrow> 'u"
  | Declare string
  | Define string
  | Profile string
  | Block "'u stmt list"

record 'u world =
  user :: 'u
  ticks :: nat
  proc :: process

fun unwind :: "(nat \<Rightarrow> timespec) \<Rightarrow> pthread_t \<Rightarrow> APIProfiler list \<Rightarrow> 'u world \<Rightarrow> 'u world option" where
  "unwind clk t [] w = Some w"
| "unwind clk t (g # gs) w =
     (case APIProfiler_dtor t (clk (ticks w)) g (proc w) of
        None \<Rightarrow> None
      | Some p \<Rightarrow> unwind clk t gs (w\<lparr>ticks := Suc (ticks w), proc := p\<rparr>))"

fun exec :: "bool \<Rightarrow> (nat \<Rightarrow> timespec) \<Rightarrow> pthread_t \<Rightarrow> 'u stmt \<Rightarrow>
               'u world \<times> APIProfiler list \<Rightarrow> ('u world \<times> APIProfiler list) option"
  and exec_list :: "bool \<Rightarrow> (nat \<Rightarrow> timespec) \<Rightarrow> pthread_t \<Rightarrow> 'u stmt list \<Rightarrow>
               'u world \<times> APIProfiler list \<Rightarrow> ('u world \<times> APIProfiler list) option" where
  "exec enabled clk t (Work f) (w, gs) = Some (w\<lparr>user := f (user w)\<rparr>, gs)"
| "exec enabled clk t (Declare n) (w, gs) = Some (w, gs)"
| "exec enabled clk t (Define n) (w, gs) =
     (if enabled
      then Some (w\<lparr>proc := (proc w)\<lparr>threadInfos :=
                   (threadInfos (proc w))((t, n) := DEFINE_API_PROFILER n)\<rparr>\<rparr>, gs)
      else Some (w, gs))"
| "exec enabled clk t (Profile n) (w, gs) =
     (if enabled
      then Some (w\<lparr>ticks := Suc (ticks w)\<rparr>, APIProfiler_ctor (clk (ticks w)) (t, n) # gs)
      else Some (w, gs))"
| "exec enabled clk t (Block ss) (w, gs) =
     (case exec_list enabled clk t ss (w, []) of
        None \<Rightarrow> None
      | Some (w', gs') \<Rightarrow> map_option (\<lambda>w''. (w'', gs)) (unwind clk t gs' w'))"
| "exec_list enabled clk t [] st = Some st"
| "exec_list enabled clk t (s # ss) st =
     (case exec enabled clk t s st of
        None \<Rightarrow> None
      | Some st' \<Rightarrow> exec_list enabled clk t ss st')"

text \<open>
  The program with no instrumentation: \<open>strip\<close> removes the macros from the code,
  \<open>uninstrumented\<close> is what code without macros does to the client's state.
\<close>

fun strip :: "'u stmt \<Rightarrow> 'u stmt list"
  and strip_list :: "'u stmt list \<Rightarrow> 'u stmt list" where
  "strip (Work f) = [Work f]"
| "strip (Declare n) = []"
| "strip (Define n) = []"
| "strip (Profile n) = []"
| "strip (Block ss) = [Block (strip_list ss)]"
| "strip_list [] = []"
| "strip_list (s # ss) = strip s @ strip_list ss"

fun uninstrumented :: "'u stmt \<Rightarrow> 'u \<Rightarrow> 'u"
  and uninstrumented_list :: "'u stmt list \<Rightarrow> 'u \<Rightarrow> 'u" where
  "uninstrumented (Work f) u = f u"
| "uninstrumented (Block ss) u = uninstrumented_list ss u"
| "uninstrumented _ u = u"
| "uninstrumented_list [] u = u"
| "uninstrumented_list (s # ss) u = uninstrumented_list ss (uninstrumented s u)"

definition sample_program :: "nat stmt" where
  "sample_program = Block [Define ''db'', Block [Profile ''db'', Work Suc]]"

definition sample_clock :: "nat \<Rightarrow> timespec" where
  "sample_clock n = (if n = 0 then \<lparr>tv_sec = 100, tv_nsec = 0\<rparr> else \<lparr>tv_sec = 100, tv_nsec = 5000\<rparr>)"

definition sample_world :: "nat world" where
  "sample_world = \<lparr>user = 0, ticks = 0, proc = initial_process\<rparr>"

section \<open>Rounding to binary64\<close>

lemma round_even_of_int: "round_even (of_int k) = k"
  by (simp add: round_even_def)

lemma round_even_near: "\<bar>of_int (round_even x) - x\<bar> \<le> 1 / 2"
  unfolding round_even_def Let_def
  by (auto simp: abs_if) linarith+

lemma round_even_nonneg: "0 \<le> x \<Longrightarrow> 0 \<le> round_even x"
  by (simp add: round_even_def Let_def)

lemma binade_ge1:
  assumes "1 \<le> x"
  shows "2 powi (binade x) \<le> x" and "x < 2 powi (binade x + 1)" and "0 \<le> binade x"
proof -
  let ?n = "\<lfloor>x\<rfloor>"
  have n: "0 < ?n" using assms by simp
  have b: "binade x = bitlen ?n - 1" using assms by (simp add: binade_def)
  have b1: "1 \<le> bitlen ?n" using n by (simp add: bitlen_ge_iff_power)
  show "0 \<le> binade x" using b b1 by simp
  from bitlen_bounds[OF n] have lo: "2 ^ nat (bitlen ?n - 1) \<le> ?n" and hi: "?n < 2 ^ nat (bitlen ?n)" by auto
  have "(2::rat) powi (binade x) = 2 ^ nat (bitlen ?n - 1)" using b b1 by (simp add: power_int_def)
  also have "\<dots> = of_int (2 ^ nat (bitlen ?n - 1))" by simp
  also have "\<dots> \<le> of_int ?n" using lo by (simp only: of_int_le_iff)
  also have "\<dots> \<le> x" by simp
  finally show "2 powi (binade x) \<le> x" .
  have "?n + 1 \<le> 2 ^ nat (bitlen ?n)" using hi by simp
  then have "(of_int (?n + 1) :: rat) \<le> of_int (2 ^ nat (bitlen ?n))" by (simp only: of_int_le_iff)
  moreover have "x < of_int (?n + 1)" by linarith
  ultimately have "x < of_int (2 ^ nat (bitlen ?n))" by linarith
  also have "\<dots> = 2 powi (binade x + 1)" using b b1 by (simp add: power_int_def)
  finally show "x < 2 powi (binade x + 1)" .
qed

lemma binade_lt1:
  assumes "0 < x" and "x < 1"
  shows "2 powi (binade x) \<le> x" and "x < 2 powi (binade x + 1)"
proof -
  let ?y = "1 / x"
  let ?n = "\<lceil>?y\<rceil> - 1"
  define k where "k = nat (bitlen ?n)"
  have y1: "1 < ?y" using assms by simp
  then have "2 \<le> \<lceil>?y\<rceil>" by linarith
  then have n: "0 < ?n" by simp
  have b: "binade x = - int k" using assms by (simp add: binade_def k_def bitlen_nonneg)
  have k1: "1 \<le> k" using n by (simp add: k_def bitlen_ge_iff_power le_nat_iff)
  have km: "nat (bitlen ?n - 1) = k - 1" unfolding k_def by arith
  from bitlen_bounds[OF n] have lo: "2 ^ (k - 1) \<le> ?n" and hi: "?n < 2 ^ k"
    unfolding km k_def[symmetric] by blast+
  have "\<lceil>?y\<rceil> \<le> 2 ^ k" using hi by simp
  then have c1: "(of_int \<lceil>?y\<rceil> :: rat) \<le> of_int (2 ^ k)" by (simp only: of_int_le_iff)
  have c2: "?y \<le> of_int \<lceil>?y\<rceil>" by (rule le_of_int_ceiling)
  have "?y \<le> of_int (2 ^ k)" using c2 c1 by (rule order_trans)
  then have yk: "?y \<le> 2 ^ k" by simp
  have c3: "(of_int (2 ^ (k - 1)) :: rat) \<le> of_int ?n" using lo by (simp only: of_int_le_iff)
  have c4: "(of_int ?n :: rat) < ?y" by linarith
  have "of_int (2 ^ (k - 1)) < ?y" using c3 c4 by (rule order_le_less_trans)
  then have ky: "2 ^ (k - 1) < ?y" by simp
  have "1 / 2 ^ k \<le> x"
    using yk assms(1) by (simp add: field_simps)
  then show "2 powi (binade x) \<le> x"
    by (simp add: b power_int_minus divide_inverse)
  have "x < 1 / 2 ^ (k - 1)"
    using ky assms(1) by (simp add: field_simps)
  moreover have "(2::rat) powi (binade x + 1) = 1 / 2 ^ (k - 1)"
  proof -
    have "binade x + 1 = - int (k - 1)" using b k1 by simp
    then show ?thesis by (simp add: power_int_minus divide_inverse)
  qed
  ultimately show "x < 2 powi (binade x + 1)" by simp
qed

lemma binade_spec:
  assumes "0 < x"
  shows "2 powi (binade x) \<le> x \<and> x < 2 powi (binade x + 1)"
  using binade_ge1(1,2)[of x] binade_lt1[of x] assms by (cases "1 \<le> x") simp_all

lemma rd_scaled:
  assumes "1 \<le> x"
  shows "rd x = of_int (round_even (x / 2 powi (binade x - 52))) * 2 powi (binade x - 52)"
  using assms binade_ge1(3)[OF assms] by (simp add: rd_def Let_def max_def)

lemma rd_error:
  assumes "1 \<le> x"
  shows "\<bar>rd x - x\<bar> \<le> x / 2 ^ 53"
proof -
  let ?s = "(2::rat) powi (binade x - 52)"
  let ?q = "of_int (round_even (x / ?s)) :: rat"
  have s: "0 < ?s" by simp
  have "rd x - x = (?q - x / ?s) * ?s"
    using s by (simp add: rd_scaled[OF assms] algebra_simps)
  then have "\<bar>rd x - x\<bar> = \<bar>?q - x / ?s\<bar> * ?s"
    using s by (simp add: abs_mult)
  also have "\<dots> \<le> (1 / 2) * ?s"
    using round_even_near[of "x / ?s"] s by (intro mult_right_mono) auto
  also have "\<dots> = 2 powi (binade x) / 2 ^ 53"
    by (simp add: power_int_diff)
  also have "\<dots> \<le> x / 2 ^ 53"
    using binade_ge1(1)[OF assms] by (simp add: divide_right_mono)
  finally show ?thesis .
qed

lemma rd_of_int_exact:
  assumes "0 \<le> n" and "n < 2 ^ 53"
  shows "rd (of_int n) = of_int n"
proof (cases "n = 0")
  case True
  then show ?thesis by (simp add: rd_def)
next
  case False
  with assms have n: "0 < n" by simp
  then have x1: "(1::rat) \<le> of_int n" by simp
  have b: "binade (of_int n) = bitlen n - 1" using n by (simp add: binade_def)
  have "bitlen n \<le> 53" using assms by (simp add: bitlen_le_iff_power)
  moreover have "1 \<le> bitlen n" using n by (simp add: bitlen_ge_iff_power)
  ultimately have "0 \<le> 53 - bitlen n" by simp
  define k where "k = nat (53 - bitlen n)"
  have k: "bitlen n - 1 - 52 = - int k"
    using \<open>0 \<le> 53 - bitlen n\<close> by (simp add: k_def)
  have s: "(2::rat) powi (binade (of_int n) - 52) = 1 / 2 ^ k"
    unfolding b k by (simp add: power_int_minus divide_inverse)
  have "of_int n / (1 / 2 ^ k) = (of_int (n * 2 ^ k) :: rat)" by simp
  then have "round_even (of_int n / (1 / 2 ^ k)) = n * 2 ^ k"
    by (simp only: round_even_of_int)
  then show ?thesis
    by (simp add: rd_scaled[OF x1] s)
qed

lemma rd_nonneg: "0 \<le> x \<Longrightarrow> 0 \<le> rd x"
  by (simp add: rd_def Let_def round_even_nonneg)

lemma mk_double_exact:
  assumes "0 \<le> n" and "n < 2 ^ 53"
  shows "mk_double s (of_int n) = Finite s (of_int n)"
proof -
  have "(of_int n :: rat) < of_int (2 ^ 53)" using assms(2) by (simp only: of_int_less_iff)
  then have "(of_int n :: rat) < 2 ^ 1024" by simp
  then show ?thesis
    by (simp add: mk_double_def rd_of_int_exact[OF assms] Let_def)
qed

lemma double_of_int_exact:
  assumes "\<bar>n\<bar> < 2 ^ 53"
  shows "double_of_int n = Finite (n < 0) (of_int \<bar>n\<bar>)"
  unfolding double_of_int_def using mk_double_exact[of "\<bar>n\<bar>"] assms by simp

lemma mk_double_near:
  assumes "x = 0 \<or> 1 \<le> x" and "x \<le> 2 ^ 61"
  shows "\<exists>r. mk_double s x = Finite s r \<and> 0 \<le> r \<and> \<bar>r - x\<bar> \<le> x / 2 ^ 53"
proof (cases "x = 0")
  case True
  then show ?thesis by (simp add: mk_double_def rd_def)
next
  case False
  with assms have x: "1 \<le> x" by simp
  have e: "\<bar>rd x - x\<bar> \<le> x / 2 ^ 53" using x by (rule rd_error)
  have "x / 2 ^ 53 \<le> x" using x by (simp add: field_simps)
  with e have "rd x \<le> 2 * x" by linarith
  also have "\<dots> \<le> 2 * 2 ^ 61" using assms(2) by simp
  also have "\<dots> < (2 ^ 1024 :: rat)" by simp
  finally have "\<not> 2 ^ 1024 \<le> rd x" by simp
  moreover have "0 \<le> rd x" using x by (simp add: rd_nonneg)
  ultimately show ?thesis using e by (simp add: mk_double_def Let_def)
qed

lemma report_interval_value:
  "ll_of_double (dmul (double_of_int 1000000) APIProfiler_ReportIntervalSecs) = Some 1000000"
proof -
  have a: "double_of_int 1000000 = Finite False 1000000"
    using double_of_int_exact[of 1000000] by simp
  have b: "double_of_int 1 = Finite False 1"
    using double_of_int_exact[of 1] by simp
  have c: "mk_double False 1000000 = Finite False 1000000"
    using mk_double_exact[of 1000000 False] by simp
  show ?thesis
    by (simp add: APIProfiler_ReportIntervalSecs_def a b c ll_of_double_def ll_def
          LLONG_MIN_def LLONG_MAX_def)
qed

section \<open>Clock readings in nanoseconds and microseconds\<close>

lemma nanosec_exact:
  assumes "0 \<le> tv_sec x" and "0 \<le> tv_nsec x" and "exact_ns x < 2 ^ 53"
  shows "nanosec x = Some (exact_ns x)"
proof -
  let ?s = "tv_sec x" and ?n = "tv_nsec x"
  have s: "?s * 1000000000 < 2 ^ 53" and n: "?n < 2 ^ 53" and s': "?s < 2 ^ 53"
    using assms by (simp_all add: exact_ns_def)
  have a: "double_of_int ?s = Finite False (of_int ?s)"
    using double_of_int_exact[of ?s] assms(1) s' by simp
  have b: "double_of_int 1000000000 = Finite False 1000000000"
    using double_of_int_exact[of 1000000000] by simp
  have c: "double_of_int ?n = Finite False (of_int ?n)"
    using double_of_int_exact[of ?n] assms(2) n by simp
  have d: "mk_double False (of_int ?s * 1000000000) = Finite False (of_int (?s * 1000000000))"
    using mk_double_exact[of "?s * 1000000000" False] assms(1) s by simp
  have e: "mk_double False (of_int (?s * 1000000000) + of_int ?n) = Finite False (of_int (exact_ns x))"
    using mk_double_exact[of "exact_ns x" False] assms by (simp add: exact_ns_def)
  have "exact_ns x \<le> LLONG_MAX" "LLONG_MIN \<le> exact_ns x"
    using assms by (simp_all add: LLONG_MAX_def LLONG_MIN_def exact_ns_def)
  then show ?thesis
    unfolding nanosec_def a b c by (simp add: d e ll_of_double_def ll_def del: of_int_mult of_int_add)
qed

lemma elapsed_exact:
  assumes "0 \<le> tv_sec a" "0 \<le> tv_nsec a" "exact_ns a < 2 ^ 53"
      and "0 \<le> tv_sec b" "0 \<le> tv_nsec b" "exact_ns b < 2 ^ 53"
  shows "elapsed a b = Some (cdiv (exact_ns b - exact_ns a) 1000)"
proof -
  have "0 \<le> exact_ns a" "0 \<le> exact_ns b"
    using assms by (simp_all add: exact_ns_def)
  then have "ll (exact_ns b - exact_ns a) = Some (exact_ns b - exact_ns a)"
    using assms by (simp add: ll_def LLONG_MIN_def LLONG_MAX_def)
  moreover have "nanosec a = Some (exact_ns a)" "nanosec b = Some (exact_ns b)"
    using assms by (simp_all only: nanosec_exact)
  ultimately show ?thesis
    by (simp add: elapsed_def)
qed

lemma delta_exact:
  assumes "0 \<le> tv_sec (entered sc)" "0 \<le> tv_nsec (entered sc)" "exact_ns (entered sc) < 2 ^ 53"
      and "0 \<le> tv_sec (left sc)" "0 \<le> tv_nsec (left sc)" "exact_ns (left sc) < 2 ^ 53"
      and "exact_ns (entered sc) \<le> exact_ns (left sc)"
  shows "delta sc = Some ((exact_ns (left sc) - exact_ns (entered sc)) div 1000)"
proof -
  have "cdiv (exact_ns (left sc) - exact_ns (entered sc)) 1000 =
          (exact_ns (left sc) - exact_ns (entered sc)) div 1000"
    using assms(7) by (cases "exact_ns (left sc) = exact_ns (entered sc)") (simp_all add: cdiv_def)
  then show ?thesis
    unfolding delta_def using elapsed_exact[OF assms(1-6)] by simp
qed

lemma nanosec_near:
  assumes "clock_ok x"
  shows "\<exists>n. nanosec x = Some n \<and> \<bar>n - exact_ns x\<bar> \<le> 258 \<and> 0 \<le> n"
proof -
  let ?s = "tv_sec x" and ?n = "tv_nsec x"
  let ?P = "of_int (?s * 1000000000) :: rat"
  from assms have s0: "0 \<le> ?s" and n0: "0 \<le> ?n" and n1: "?n < 1000000000"
    and X: "?s * 1000000000 + ?n < 2 ^ 60"
    by (simp_all add: clock_ok_def exact_ns_def)
  have s53: "?s < 2 ^ 53" using s0 n0 X by simp
  have a: "double_of_int ?s = Finite False (of_int ?s)"
    using double_of_int_exact[of ?s] s0 s53 by simp
  have b: "double_of_int 1000000000 = Finite False 1000000000"
    using double_of_int_exact[of 1000000000] by simp
  have c: "double_of_int ?n = Finite False (of_int ?n)"
    using double_of_int_exact[of ?n] n0 n1 by simp
  have Pint: "?P = 0 \<or> 1 \<le> ?P"
  proof (cases "?s = 0")
    case True then show ?thesis by simp
  next
    case False
    with s0 have "1 \<le> ?s * 1000000000" by simp
    then have "(of_int 1 :: rat) \<le> ?P" by (simp only: of_int_le_iff)
    then show ?thesis by simp
  qed
  have "?s * 1000000000 < 2 ^ 60" using n0 X by simp
  then have "?P < of_int (2 ^ 60)" by (simp only: of_int_less_iff)
  then have P60: "?P < 2 ^ 60" by simp
  then have "?P \<le> 2 ^ 61" by simp
  from mk_double_near[OF Pint this, of False] obtain r1 where
    r1: "mk_double False ?P = Finite False r1" "0 \<le> r1" "\<bar>r1 - ?P\<bar> \<le> ?P / 2 ^ 53"
    by blast
  have "?P / 2 ^ 53 \<le> 128" using P60 by simp
  with r1(3) have r1e: "\<bar>r1 - ?P\<bar> \<le> 128" by linarith
  let ?S = "r1 + of_int ?n"
  have Sint: "?S = 0 \<or> 1 \<le> ?S"
  proof (cases "?s = 0")
    case True
    then have "r1 = 0" using r1(1) by (simp add: mk_double_def rd_def)
    moreover have "?n = 0 \<or> 1 \<le> ?n" using n0 by linarith
    ultimately show ?thesis by auto
  next
    case False
    with s0 have "1000000000 \<le> ?s * 1000000000" by simp
    then have "(of_int 1000000000 :: rat) \<le> ?P" by (simp only: of_int_le_iff)
    then have "1 \<le> r1" using r1e by simp
    moreover have "(0::rat) \<le> of_int ?n" using n0 by simp
    ultimately show ?thesis by linarith
  qed
  have "(of_int (?s * 1000000000 + ?n) :: rat) < of_int (2 ^ 60)"
    using X by (simp only: of_int_less_iff)
  then have X60: "?P + of_int ?n < 2 ^ 60" by simp
  then have S60: "?S \<le> 2 ^ 60 + 128" using r1e by linarith
  then have "?S \<le> 2 ^ 61" by simp
  from mk_double_near[OF Sint this, of False] obtain r2 where
    r2: "mk_double False ?S = Finite False r2" "0 \<le> r2" "\<bar>r2 - ?S\<bar> \<le> ?S / 2 ^ 53"
    by blast
  have "?S / 2 ^ 53 \<le> 129" using S60 by simp
  with r2(3) have r2e: "\<bar>r2 - ?S\<bar> \<le> 129" by linarith
  have Xr: "(of_int (exact_ns x) :: rat) = ?P + of_int ?n"
    by (simp add: exact_ns_def)
  have fl: "of_int \<lfloor>r2\<rfloor> \<le> r2" "r2 < of_int \<lfloor>r2\<rfloor> + 1" by linarith+
  have "\<bar>(of_int \<lfloor>r2\<rfloor> :: rat) - of_int (exact_ns x)\<bar> < 258"
    using fl r2e r1e unfolding Xr by linarith
  then have "\<bar>(of_int (\<lfloor>r2\<rfloor> - exact_ns x) :: rat)\<bar> < of_int 258" by simp
  then have near: "\<bar>\<lfloor>r2\<rfloor> - exact_ns x\<bar> < 258"
    by (simp only: of_int_abs[symmetric] of_int_less_iff)
  have r1': "mk_double False (of_int ?s * 1000000000) = Finite False r1"
    using r1(1) by simp
  define m where "m = \<lfloor>r2\<rfloor>"
  have m0: "0 \<le> m" using r2(2) by (simp add: m_def)
  have near': "\<bar>m - exact_ns x\<bar> < 258" using near by (simp add: m_def)
  have "exact_ns x < 2 ^ 60" using X by (simp add: exact_ns_def)
  then have "ll m = Some m"
    using near' m0 by (simp add: ll_def LLONG_MIN_def LLONG_MAX_def)
  moreover have "nanosec x = ll m"
    unfolding nanosec_def a b c m_def
    using r1' r2(1) by (simp add: ll_of_double_def)
  ultimately show ?thesis using near' m0 by simp
qed

lemma cdiv_gt:
  assumes "0 \<le> i" and "i < cdiv e 1000"
  shows "1000 * (i + 1) \<le> e"
proof -
  have pos: "0 < e"
  proof (rule ccontr)
    assume "\<not> 0 < e"
    then have "cdiv e 1000 \<le> 0"
      by (simp add: cdiv_def sgn_if div_int_pos_iff)
    with assms show False by simp
  qed
  then have "cdiv e 1000 = e div 1000" by (simp add: cdiv_def)
  define q m where "q = e div 1000" and "m = e mod 1000"
  have "i + 1 \<le> q" using assms(2) \<open>cdiv e 1000 = e div 1000\<close> by (simp add: q_def)
  moreover have "e = 1000 * q + m" by (simp add: q_def m_def)
  moreover have "0 \<le> m" by (simp add: m_def)
  ultimately show ?thesis by simp
qed

lemma cdiv_abs_le: "\<bar>cdiv e 1000\<bar> \<le> \<bar>e\<bar>"
proof -
  define q m where "q = \<bar>e\<bar> div 1000" and "m = \<bar>e\<bar> mod 1000"
  have "\<bar>cdiv e 1000\<bar> = q"
    by (cases "e = 0") (simp_all add: cdiv_def abs_mult abs_sgn_eq pos_imp_zdiv_nonneg_iff q_def)
  moreover have "\<bar>e\<bar> = 1000 * q + m" by (simp add: q_def m_def)
  moreover have "0 \<le> m" "0 \<le> q"
    by (simp_all add: pos_imp_zdiv_nonneg_iff q_def m_def)
  ultimately show ?thesis by linarith
qed

lemma elapsed_near:
  assumes "clock_ok a" and "clock_ok b" and "elapsed a b = Some gap" and "0 \<le> i" and "i < gap"
  shows "1000 * (i + 1) - 516 \<le> exact_ns b - exact_ns a"
proof -
  from nanosec_near[OF assms(1)] obtain na where
    na: "nanosec a = Some na" "\<bar>na - exact_ns a\<bar> \<le> 258" by blast
  from nanosec_near[OF assms(2)] obtain nb where
    nb: "nanosec b = Some nb" "\<bar>nb - exact_ns b\<bar> \<le> 258" by blast
  from assms(3) have "gap = cdiv (nb - na) 1000"
    by (auto simp: elapsed_def na nb ll_def split: if_splits)
  with assms(4,5) cdiv_gt[of i "nb - na"] have "1000 * (i + 1) \<le> nb - na" by simp
  with na(2) nb(2) show ?thesis by linarith
qed

lemma elapsed_total:
  assumes "clock_ok a" and "clock_ok b"
  shows "\<exists>d. elapsed a b = Some d \<and> \<bar>d\<bar> < 2 ^ 61"
proof -
  from nanosec_near[OF assms(1)] obtain na where
    na: "nanosec a = Some na" "\<bar>na - exact_ns a\<bar> \<le> 258" "0 \<le> na" by blast
  from nanosec_near[OF assms(2)] obtain nb where
    nb: "nanosec b = Some nb" "\<bar>nb - exact_ns b\<bar> \<le> 258" "0 \<le> nb" by blast
  have "exact_ns a < 2 ^ 60" "exact_ns b < 2 ^ 60"
    using assms by (simp_all add: clock_ok_def)
  with na nb have r: "\<bar>nb - na\<bar> < 2 ^ 61" by simp
  then have "ll (nb - na) = Some (nb - na)"
    by (auto simp: ll_def LLONG_MIN_def LLONG_MAX_def abs_less_iff)
  moreover have "\<bar>cdiv (nb - na) 1000\<bar> \<le> \<bar>nb - na\<bar>"
    by (rule cdiv_abs_le)
  ultimately show ?thesis using r by (simp add: elapsed_def na nb)
qed

lemma Flush_interval_large:
  assumes "clock_ok a" and "clock_ok b" and "1000000484 \<le> exact_ns b - exact_ns a"
  shows "\<exists>v. Flush_interval a b = Some (Finite False v) \<and> 1000000 < v"
proof -
  let ?D = "exact_ns b - exact_ns a"
  from assms(1,2) have
    a: "0 \<le> tv_sec a" "0 \<le> tv_nsec a" "tv_nsec a < 1000000000" "exact_ns a < 2 ^ 60" and
    b: "0 \<le> tv_sec b" "0 \<le> tv_nsec b" "tv_nsec b < 1000000000" "exact_ns b < 2 ^ 60"
    by (simp_all add: clock_ok_def)
  have sa: "tv_sec a * 1000000000 < 2 ^ 60" and sb: "tv_sec b * 1000000000 < 2 ^ 60"
    using a b by (simp_all add: exact_ns_def)
  have l1: "ll (tv_sec b - tv_sec a) = Some (tv_sec b - tv_sec a)"
    using a b sa sb by (simp add: ll_def LLONG_MIN_def LLONG_MAX_def)
  have l2: "ll ((tv_sec b - tv_sec a) * 1000000000) = Some ((tv_sec b - tv_sec a) * 1000000000)"
    using a b sa sb by (simp add: ll_def LLONG_MIN_def LLONG_MAX_def)
  have l3: "ll (tv_nsec b - tv_nsec a) = Some (tv_nsec b - tv_nsec a)"
    using a b by (simp add: ll_def LLONG_MIN_def LLONG_MAX_def)
  have D: "(tv_sec b - tv_sec a) * 1000000000 + (tv_nsec b - tv_nsec a) = ?D"
    by (simp add: exact_ns_def algebra_simps)
  have Dhi: "?D < 2 ^ 60" using a b by (simp add: exact_ns_def)
  have l4: "ll ?D = Some ?D"
    using assms(3) Dhi by (simp add: ll_def LLONG_MIN_def LLONG_MAX_def)
  have fi: "Flush_interval a b = Some (ddiv (double_of_int ?D) (double_of_int 1000))"
    by (simp only: Flush_interval_def l1 l2 l3 D l4 Option.bind.bind_lunit)
  have k: "double_of_int 1000 = Finite False 1000"
    using double_of_int_exact[of 1000] by simp
  define x :: rat where "x = of_int ?D"
  have "(of_int 1000000484 :: rat) \<le> x" unfolding x_def using assms(3) by (simp only: of_int_le_iff)
  then have x_lo: "1000000484 \<le> x" by simp
  have "x < of_int (2 ^ 60)" unfolding x_def using Dhi by (simp only: of_int_less_iff)
  then have x_hi: "x < 2 ^ 60" by simp
  have "x = 0 \<or> 1 \<le> x" "x \<le> 2 ^ 61" using x_lo x_hi by simp_all
  from mk_double_near[OF this, of False] obtain r where
    r: "mk_double False x = Finite False r" "\<bar>r - x\<bar> \<le> x / 2 ^ 53" by blast
  have "x / 2 ^ 53 \<le> 128" using x_hi by simp
  with r(2) have re: "\<bar>r - x\<bar> \<le> 128" by linarith
  have r_lo: "1000000356 \<le> r" using re x_lo by linarith
  have r_hi: "r \<le> 2 ^ 61" using re x_hi by simp
  have dD: "double_of_int ?D = Finite False r"
    using r(1) assms(3) by (simp add: double_of_int_def x_def)
  let ?y = "r / 1000"
  have y_lo: "1000000356 / 1000 \<le> ?y" using r_lo by simp
  then have y1: "1 \<le> ?y" by simp
  have "?y = 0 \<or> 1 \<le> ?y" "?y \<le> 2 ^ 61" using y1 r_hi by simp_all
  from mk_double_near[OF this, of False] obtain v where
    v: "mk_double False ?y = Finite False v" "\<bar>v - ?y\<bar> \<le> ?y / 2 ^ 53" by blast
  have "?y / 2 ^ 53 \<le> ?y / 2 ^ 32" using y1 by (simp add: field_simps)
  with v(2) have "?y - ?y / 2 ^ 32 \<le> v" by linarith
  then have "?y * (1 - 1 / 2 ^ 32) \<le> v" by (simp add: algebra_simps)
  moreover have "(1000000356 / 1000) * (1 - 1 / 2 ^ 32) \<le> ?y * (1 - 1 / 2 ^ 32 :: rat)"
    using y_lo by (intro mult_right_mono) simp_all
  moreover have "(1000000 :: rat) < (1000000356 / 1000) * (1 - 1 / 2 ^ 32)" by simp
  ultimately have "1000000 < v" by linarith
  moreover have "Flush_interval a b = Some (Finite False v)"
    using v(1) by (simp add: fi dD k)
  ultimately show ?thesis by blast
qed

lemma Flush_interval_defined:
  assumes "clock_ok a" and "clock_ok b"
  shows "\<exists>i. Flush_interval a b = Some i"
proof -
  from assms have
    a: "0 \<le> tv_sec a" "0 \<le> tv_nsec a" "tv_nsec a < 1000000000" "exact_ns a < 2 ^ 60" and
    b: "0 \<le> tv_sec b" "0 \<le> tv_nsec b" "tv_nsec b < 1000000000" "exact_ns b < 2 ^ 60"
    by (simp_all add: clock_ok_def)
  have sa: "tv_sec a * 1000000000 < 2 ^ 60" and sb: "tv_sec b * 1000000000 < 2 ^ 60"
    using a b by (simp_all add: exact_ns_def)
  have l1: "ll (tv_sec b - tv_sec a) = Some (tv_sec b - tv_sec a)"
    using a b sa sb by (simp add: ll_def LLONG_MIN_def LLONG_MAX_def)
  have l2: "ll ((tv_sec b - tv_sec a) * 1000000000) = Some ((tv_sec b - tv_sec a) * 1000000000)"
    using a b sa sb by (simp add: ll_def LLONG_MIN_def LLONG_MAX_def)
  have l3: "ll (tv_nsec b - tv_nsec a) = Some (tv_nsec b - tv_nsec a)"
    using a b by (simp add: ll_def LLONG_MIN_def LLONG_MAX_def)
  have D: "(tv_sec b - tv_sec a) * 1000000000 + (tv_nsec b - tv_nsec a) = exact_ns b - exact_ns a"
    by (simp add: exact_ns_def algebra_simps)
  have "0 \<le> exact_ns a" "0 \<le> exact_ns b" using a b by (simp_all add: exact_ns_def)
  then have l4: "ll (exact_ns b - exact_ns a) = Some (exact_ns b - exact_ns a)"
    using a b by (simp add: ll_def LLONG_MIN_def LLONG_MAX_def)
  show ?thesis
    by (simp only: Flush_interval_def l1 l2 l3 D l4 Option.bind.bind_lunit) blast
qed

section \<open>The operations, case by case\<close>

lemma sentinel_iff: "(tv_sec x = 0 \<and> tv_nsec x = 0) \<longleftrightarrow> x = zero_time"
  by (cases x) (simp add: zero_time_def)

lemma Flush_eq:
  "Flush self this e p =
     (let ri = (if s_reportInterval p = 0 then 1000000 else s_reportInterval p);
          ti = threadInfos p (m_threadInfo this)
      in if lastReportTime ti = zero_time
         then Some (p\<lparr>s_reportInterval := ri, flushCalls := Suc (flushCalls p),
                      threadInfos := (threadInfos p)
                        (m_threadInfo this := ti\<lparr>lastReportTime := m_start this\<rparr>)\<rparr>)
         else (case Flush_interval (lastReportTime ti) e of
                 None \<Rightarrow> None
               | Some interval \<Rightarrow>
                   Some (p\<lparr>s_reportInterval := ri, flushCalls := Suc (flushCalls p),
                           stdout := stdout p @ [report_call self ti interval],
                           threadInfos := (threadInfos p)
                             (m_threadInfo this :=
                                ti\<lparr>lastReportTime := e, accumulator := 0, hitCount := 0\<rparr>)\<rparr>)))"
  by (simp add: Flush_def report_interval_value sentinel_iff Let_def report_call_def
           split: option.splits)

lemma dtor_eq:
  "APIProfiler_dtor self e this p =
     (let ti = threadInfos p (m_threadInfo this)
      in case (elapsed (m_start this) e, elapsed (lastReportTime ti) e) of
           (Some d, Some gap) \<Rightarrow>
             (if ll (accumulator ti + d) = None \<or> ll (hitCount ti + 1) = None then None
              else let p1 = p\<lparr>threadInfos := (threadInfos p)(m_threadInfo this := counted ti d)\<rparr>
                   in if s_reportInterval p < gap then Flush self this e p1 else Some p1)
         | _ \<Rightarrow> None)"
proof -
  obtain s where s: "nanosec (m_start this) = s" by simp
  obtain n where n: "nanosec e = n" by simp
  obtain l where l: "nanosec (lastReportTime (threadInfos p (m_threadInfo this))) = l" by simp
  show ?thesis
    unfolding APIProfiler_dtor_def elapsed_def Let_def counted_def s n l
    by (cases s; cases n; cases l) (simp_all add: ll_def)
qed

lemma Flush_effect:
  assumes "Flush self this e p = Some p'"
  shows "flushCalls p' = Suc (flushCalls p)"
    and "s_reportInterval p' = (if s_reportInterval p = 0 then 1000000 else s_reportInterval p)"
    and "\<And>h. h \<noteq> m_threadInfo this \<Longrightarrow> threadInfos p' h = threadInfos p h"
    and "lastReportTime (threadInfos p (m_threadInfo this)) = zero_time \<Longrightarrow>
           stdout p' = stdout p \<and>
           threadInfos p' (m_threadInfo this) =
             (threadInfos p (m_threadInfo this))\<lparr>lastReportTime := m_start this\<rparr>"
    and "lastReportTime (threadInfos p (m_threadInfo this)) \<noteq> zero_time \<Longrightarrow>
           \<exists>interval. Flush_interval (lastReportTime (threadInfos p (m_threadInfo this))) e = Some interval \<and>
             stdout p' = stdout p @ [report_call self (threadInfos p (m_threadInfo this)) interval] \<and>
             threadInfos p' (m_threadInfo this) =
               (threadInfos p (m_threadInfo this))\<lparr>lastReportTime := e, accumulator := 0, hitCount := 0\<rparr>"
  using assms by (auto simp: Flush_eq Let_def split: if_splits option.splits)

lemma dtor_cases:
  assumes "APIProfiler_dtor self e this p = Some p'"
  obtains d gap where
    "elapsed (m_start this) e = Some d"
    "elapsed (lastReportTime (threadInfos p (m_threadInfo this))) e = Some gap"
    "ll (accumulator (threadInfos p (m_threadInfo this)) + d) \<noteq> None"
    "ll (hitCount (threadInfos p (m_threadInfo this)) + 1) \<noteq> None"
    "if s_reportInterval p < gap
     then Flush self this e
            (p\<lparr>threadInfos := (threadInfos p)
                 (m_threadInfo this := counted (threadInfos p (m_threadInfo this)) d)\<rparr>) = Some p'
     else p' = p\<lparr>threadInfos := (threadInfos p)
                 (m_threadInfo this := counted (threadInfos p (m_threadInfo this)) d)\<rparr>"
  using assms unfolding dtor_eq Let_def
  by (auto split: option.splits if_splits)

lemma dtor_interval:
  assumes "APIProfiler_dtor self e this p = Some p'"
  shows "s_reportInterval p' = s_reportInterval p \<or>
         (s_reportInterval p = 0 \<and> s_reportInterval p' = 1000000)"
  using assms by (rule dtor_cases) (auto dest!: Flush_effect(2) split: if_splits)

lemma dtor_frame:
  assumes "APIProfiler_dtor self e this p = Some p'" and "h \<noteq> m_threadInfo this"
  shows "threadInfos p' h = threadInfos p h"
  using assms(1)
proof (rule dtor_cases)
  fix d gap
  assume "if s_reportInterval p < gap
     then Flush self this e
            (p\<lparr>threadInfos := (threadInfos p)
                 (m_threadInfo this := counted (threadInfos p (m_threadInfo this)) d)\<rparr>) = Some p'
     else p' = p\<lparr>threadInfos := (threadInfos p)
                 (m_threadInfo this := counted (threadInfos p (m_threadInfo this)) d)\<rparr>"
  with assms(2) show ?thesis
    by (auto dest: Flush_effect(3)[where h = h] split: if_splits)
qed

lemma dtor_quiet:
  assumes "APIProfiler_dtor self e this p = Some p'"
  shows "stdout p' = stdout p \<or> (\<exists>c. stdout p' = stdout p @ [c])"
    and "stdout p' = stdout p \<Longrightarrow>
           \<exists>d. elapsed (m_start this) e = Some d \<and>
             accumulator (threadInfos p' (m_threadInfo this)) =
               accumulator (threadInfos p (m_threadInfo this)) + d \<and>
             hitCount (threadInfos p' (m_threadInfo this)) =
               hitCount (threadInfos p (m_threadInfo this)) + 1 \<and>
             name (threadInfos p' (m_threadInfo this)) = name (threadInfos p (m_threadInfo this))"
    and "flushCalls p' = flushCalls p \<or> flushCalls p' = Suc (flushCalls p)"
    and "flushCalls p' = flushCalls p \<Longrightarrow> stdout p' = stdout p"
proof -
  let ?ti = "threadInfos p (m_threadInfo this)"
  from assms obtain d gap where d: "elapsed (m_start this) e = Some d"
    and step: "if s_reportInterval p < gap
     then Flush self this e (p\<lparr>threadInfos := (threadInfos p) (m_threadInfo this := counted ?ti d)\<rparr>) = Some p'
     else p' = p\<lparr>threadInfos := (threadInfos p) (m_threadInfo this := counted ?ti d)\<rparr>"
    by (rule dtor_cases)
  let ?p1 = "p\<lparr>threadInfos := (threadInfos p) (m_threadInfo this := counted ?ti d)\<rparr>"
  show "stdout p' = stdout p \<or> (\<exists>c. stdout p' = stdout p @ [c])"
    using step Flush_effect(4,5)[of self this e ?p1 p']
    by (cases "s_reportInterval p < gap"; cases "lastReportTime ?ti = zero_time")
       (auto simp: counted_def)
  show "flushCalls p' = flushCalls p \<or> flushCalls p' = Suc (flushCalls p)"
    using step Flush_effect(1)[of self this e ?p1 p']
    by (cases "s_reportInterval p < gap") auto
  show "flushCalls p' = flushCalls p \<Longrightarrow> stdout p' = stdout p"
    using step Flush_effect(1)[of self this e ?p1 p']
    by (cases "s_reportInterval p < gap") auto
  show "\<exists>d. elapsed (m_start this) e = Some d \<and>
             accumulator (threadInfos p' (m_threadInfo this)) = accumulator ?ti + d \<and>
             hitCount (threadInfos p' (m_threadInfo this)) = hitCount ?ti + 1 \<and>
             name (threadInfos p' (m_threadInfo this)) = name ?ti"
    if "stdout p' = stdout p"
    using step that d Flush_effect(4,5)[of self this e ?p1 p']
    by (cases "s_reportInterval p < gap"; cases "lastReportTime ?ti = zero_time")
       (auto simp: counted_def)
qed

lemma dtor_report:
  assumes "APIProfiler_dtor self e this p = Some p'" and "stdout p' \<noteq> stdout p"
  obtains d gap interval where
    "elapsed (m_start this) e = Some d"
    "elapsed (lastReportTime (threadInfos p (m_threadInfo this))) e = Some gap"
    "s_reportInterval p < gap"
    "lastReportTime (threadInfos p (m_threadInfo this)) \<noteq> zero_time"
    "Flush_interval (lastReportTime (threadInfos p (m_threadInfo this))) e = Some interval"
    "stdout p' = stdout p @ [report_call self (counted (threadInfos p (m_threadInfo this)) d) interval]"
    "threadInfos p' (m_threadInfo this) =
       (counted (threadInfos p (m_threadInfo this)) d)
         \<lparr>lastReportTime := e, accumulator := 0, hitCount := 0\<rparr>"
proof -
  let ?ti = "threadInfos p (m_threadInfo this)"
  from assms(1) obtain d gap where d: "elapsed (m_start this) e = Some d"
    and gap: "elapsed (lastReportTime ?ti) e = Some gap"
    and step: "if s_reportInterval p < gap
     then Flush self this e (p\<lparr>threadInfos := (threadInfos p) (m_threadInfo this := counted ?ti d)\<rparr>) = Some p'
     else p' = p\<lparr>threadInfos := (threadInfos p) (m_threadInfo this := counted ?ti d)\<rparr>"
    by (rule dtor_cases)
  let ?p1 = "p\<lparr>threadInfos := (threadInfos p) (m_threadInfo this := counted ?ti d)\<rparr>"
  from step assms(2) have t: "s_reportInterval p < gap" by (auto split: if_splits)
  with step have f: "Flush self this e ?p1 = Some p'" by simp
  have ns: "lastReportTime ?ti \<noteq> zero_time"
    using Flush_effect(4)[OF f] assms(2) by (auto simp: counted_def)
  then have "lastReportTime (threadInfos ?p1 (m_threadInfo this)) \<noteq> zero_time"
    by (simp add: counted_def)
  from Flush_effect(5)[OF f this] obtain interval where
    "Flush_interval (lastReportTime ?ti) e = Some interval"
    "stdout p' = stdout p @ [report_call self (counted ?ti d) interval]"
    "threadInfos p' (m_threadInfo this) =
       (counted ?ti d)\<lparr>lastReportTime := e, accumulator := 0, hitCount := 0\<rparr>"
    by (auto simp: counted_def)
  with d gap t ns show ?thesis by (rule that)
qed

section \<open>Runs\<close>

lemma run_stdout_grows:
  "run p scs = Some q \<Longrightarrow> length (stdout p) \<le> length (stdout q)"
proof (induction scs arbitrary: p)
  case Nil
  then show ?case by simp
next
  case (Cons sc scs)
  then obtain p1 where s: "API_PROFILER sc p = Some p1" and r: "run p1 scs = Some q"
    by (auto split: option.splits)
  from dtor_quiet(1)[OF s[unfolded API_PROFILER_def]]
  have "length (stdout p) \<le> length (stdout p1)" by auto
  with Cons.IH[OF r] show ?case by simp
qed

lemma run_flushCalls_grows:
  "run p scs = Some q \<Longrightarrow> flushCalls p \<le> flushCalls q"
proof (induction scs arbitrary: p)
  case Nil
  then show ?case by simp
next
  case (Cons sc scs)
  then obtain p1 where s: "API_PROFILER sc p = Some p1" and r: "run p1 scs = Some q"
    by (auto split: option.splits)
  from dtor_quiet(3)[OF s[unfolded API_PROFILER_def]]
  have "flushCalls p \<le> flushCalls p1" by auto
  with Cons.IH[OF r] show ?case by simp
qed

lemma run_quiet_counts:
  assumes "run p scs = Some q" and "\<forall>sc\<in>set scs. record_of sc = h" and "stdout q = stdout p"
  shows "\<exists>ds. map delta scs = map Some ds \<and>
           accumulator (threadInfos q h) = accumulator (threadInfos p h) + sum_list ds \<and>
           hitCount (threadInfos q h) = hitCount (threadInfos p h) + int (length scs) \<and>
           name (threadInfos q h) = name (threadInfos p h)"
  using assms
proof (induction scs arbitrary: p)
  case Nil
  then show ?case by simp
next
  case (Cons sc scs)
  then obtain p1 where s: "API_PROFILER sc p = Some p1" and r: "run p1 scs = Some q"
    by (auto split: option.splits)
  have h: "record_of sc = h" using Cons.prems(2) by simp
  note s' = s[unfolded API_PROFILER_def]
  have "length (stdout p1) \<le> length (stdout q)" using r by (rule run_stdout_grows)
  with dtor_quiet(1)[OF s'] Cons.prems(3) have q1: "stdout p1 = stdout p" by auto
  from dtor_quiet(2)[OF s' q1] h obtain d where
    d: "delta sc = Some d"
    "accumulator (threadInfos p1 h) = accumulator (threadInfos p h) + d"
    "hitCount (threadInfos p1 h) = hitCount (threadInfos p h) + 1"
    "name (threadInfos p1 h) = name (threadInfos p h)"
    by (auto simp: APIProfiler_ctor_def delta_def record_of_def)
  from Cons.IH[OF r] Cons.prems(2,3) q1 obtain ds where
    ds: "map delta scs = map Some ds"
    "accumulator (threadInfos q h) = accumulator (threadInfos p1 h) + sum_list ds"
    "hitCount (threadInfos q h) = hitCount (threadInfos p1 h) + int (length scs)"
    "name (threadInfos q h) = name (threadInfos p1 h)"
    by auto
  show ?case
    using d ds by (intro exI[of _ "d # ds"]) simp
qed

lemma run_no_flush_quiet:
  "run p scs = Some q \<Longrightarrow> flushCalls q = flushCalls p \<Longrightarrow> stdout q = stdout p"
proof (induction scs arbitrary: p)
  case Nil
  then show ?case by simp
next
  case (Cons sc scs)
  then obtain p1 where s: "API_PROFILER sc p = Some p1" and r: "run p1 scs = Some q"
    by (auto split: option.splits)
  note s' = s[unfolded API_PROFILER_def]
  have "flushCalls p1 \<le> flushCalls q" using r by (rule run_flushCalls_grows)
  with dtor_quiet(3)[OF s'] Cons.prems(2) have f1: "flushCalls p1 = flushCalls p" by auto
  with dtor_quiet(4)[OF s'] Cons.IH[OF r] Cons.prems(2) show ?case by simp
qed

section \<open>What every reached state satisfies\<close>

lemma clock_ok_zero: "clock_ok zero_time"
  by (simp add: clock_ok_def zero_time_def exact_ns_def)

lemma time_le_refl: "time_le a a"
  by (simp add: time_le_def)

lemma time_le_trans: "time_le a b \<Longrightarrow> time_le b c \<Longrightarrow> time_le a c"
  by (auto simp: time_le_def)

lemma time_le_zero: "clock_ok a \<Longrightarrow> time_le zero_time a"
  by (auto simp: time_le_def clock_ok_def zero_time_def)

lemma time_le_exact:
  assumes "clock_ok a" and "clock_ok b" and "exact_ns a < exact_ns b"
  shows "time_le a b"
proof (rule ccontr)
  assume "\<not> time_le a b"
  then have "tv_sec b < tv_sec a \<or> (tv_sec b = tv_sec a \<and> tv_nsec b < tv_nsec a)"
    by (auto simp: time_le_def)
  then show False
  proof
    assume "tv_sec b < tv_sec a"
    then have "tv_sec b + 1 \<le> tv_sec a" by simp
    then have "(tv_sec b + 1) * 1000000000 \<le> tv_sec a * 1000000000" by simp
    with assms show False by (simp add: clock_ok_def exact_ns_def algebra_simps)
  next
    assume "tv_sec b = tv_sec a \<and> tv_nsec b < tv_nsec a"
    with assms(3) show False by (simp add: exact_ns_def)
  qed
qed

lemma steady_initial: "steady initial_process"
  by (simp add: steady_def initial_process_def DEFINE_API_PROFILER_def clock_ok_zero
        split: prod.splits)

lemma steady_step:
  assumes "steady p" and "scope_ok sc" and "API_PROFILER sc p = Some p'"
  shows "steady p'" and "\<And>h. time_le (lastReportTime (threadInfos p h)) (lastReportTime (threadInfos p' h))"
proof -
  let ?h = "record_of sc"
  let ?g = "APIProfiler_ctor (entered sc) (thread sc, region sc)"
  let ?ti = "threadInfos p ?h"
  have m: "m_threadInfo ?g = ?h" "m_start ?g = entered sc"
    by (simp_all add: APIProfiler_ctor_def record_of_def)
  from assms(1) have ri: "s_reportInterval p = 0 \<or> s_reportInterval p = 1000000"
    and ok: "\<And>h. clock_ok (lastReportTime (threadInfos p h))"
    and warm: "\<And>h. lastReportTime (threadInfos p h) \<noteq> zero_time \<Longrightarrow> s_reportInterval p = 1000000"
    unfolding steady_def by blast+
  from assms(2) have oks: "clock_ok (entered sc)" "clock_ok (left sc)"
    by (simp_all add: scope_ok_def)
  from assms(3)[unfolded API_PROFILER_def] obtain d gap where
    gap0: "elapsed (lastReportTime (threadInfos p (m_threadInfo ?g))) (left sc) = Some gap"
    and step0: "if s_reportInterval p < gap
     then Flush (thread sc) ?g (left sc)
            (p\<lparr>threadInfos := (threadInfos p)
                 (m_threadInfo ?g := counted (threadInfos p (m_threadInfo ?g)) d)\<rparr>) = Some p'
     else p' = p\<lparr>threadInfos := (threadInfos p)
                 (m_threadInfo ?g := counted (threadInfos p (m_threadInfo ?g)) d)\<rparr>"
    by (rule dtor_cases)
  have gap: "elapsed (lastReportTime ?ti) (left sc) = Some gap"
    using gap0 by (simp only: m)
  have step: "if s_reportInterval p < gap
     then Flush (thread sc) ?g (left sc) (p\<lparr>threadInfos := (threadInfos p) (?h := counted ?ti d)\<rparr>) = Some p'
     else p' = p\<lparr>threadInfos := (threadInfos p) (?h := counted ?ti d)\<rparr>"
    using step0 by (simp only: m)
  let ?p1 = "p\<lparr>threadInfos := (threadInfos p) (?h := counted ?ti d)\<rparr>"
  have last1: "\<And>h. lastReportTime (threadInfos ?p1 h) = lastReportTime (threadInfos p h)"
    by (simp add: counted_def)
  show "steady p'" and "\<And>h. time_le (lastReportTime (threadInfos p h)) (lastReportTime (threadInfos p' h))"
  proof -
    have "steady p' \<and> (\<forall>h. time_le (lastReportTime (threadInfos p h)) (lastReportTime (threadInfos p' h)))"
    proof (cases "s_reportInterval p < gap")
      case False
      with step have p': "p' = ?p1" by simp
      have "steady ?p1"
        unfolding steady_def
      proof (intro conjI allI impI)
        show "s_reportInterval ?p1 = 0 \<or> s_reportInterval ?p1 = 1000000" using ri by simp
        show "clock_ok (lastReportTime (threadInfos ?p1 h))" for h
          unfolding last1 by (rule ok)
        show "s_reportInterval ?p1 = 1000000"
          if "lastReportTime (threadInfos ?p1 h) \<noteq> zero_time" for h
          using that warm[of h] unfolding last1 by simp
      qed
      moreover have "time_le (lastReportTime (threadInfos p h)) (lastReportTime (threadInfos ?p1 h))" for h
        unfolding last1 by (rule time_le_refl)
      ultimately show ?thesis unfolding p' by blast
    next
      case True
      with step have f: "Flush (thread sc) ?g (left sc) ?p1 = Some p'" by simp
      have ri': "s_reportInterval p' = 1000000"
        using Flush_effect(2)[OF f] ri by auto
      have other: "\<And>h. h \<noteq> ?h \<Longrightarrow> threadInfos p' h = threadInfos ?p1 h"
        using Flush_effect(3)[OF f] by (simp add: m)
      show ?thesis
      proof (cases "lastReportTime ?ti = zero_time")
        case z: True
        then have "lastReportTime (threadInfos ?p1 (m_threadInfo ?g)) = zero_time"
          by (simp add: m counted_def)
        from Flush_effect(4)[OF f this]
        have new: "lastReportTime (threadInfos p' ?h) = entered sc"
          by (simp add: m)
        have "\<And>h. lastReportTime (threadInfos p' h) =
                 (if h = ?h then entered sc else lastReportTime (threadInfos p h))"
          using new other last1 by (metis (no_types, lifting))
        then show ?thesis
          using ri' ok oks z by (simp add: steady_def time_le_refl time_le_zero del: split_paired_All split_paired_Ex)
      next
        case nz: False
        then have "lastReportTime (threadInfos ?p1 (m_threadInfo ?g)) \<noteq> zero_time"
          by (simp add: m counted_def)
        from Flush_effect(5)[OF f this]
        have new: "lastReportTime (threadInfos p' ?h) = left sc"
          by (auto simp: m)
        have all: "\<And>h. lastReportTime (threadInfos p' h) =
                 (if h = ?h then left sc else lastReportTime (threadInfos p h))"
          using new other last1 by (metis (no_types, lifting))
        have nonneg: "0 \<le> s_reportInterval p" using ri by auto
        from elapsed_near[OF ok oks(2) gap nonneg True] nonneg
        have "exact_ns (lastReportTime ?ti) < exact_ns (left sc)" by simp
        then have "time_le (lastReportTime ?ti) (left sc)"
          using ok oks(2) by (intro time_le_exact)
        then show ?thesis
          using ri' ok oks all by (simp add: steady_def time_le_refl del: split_paired_All split_paired_Ex)
      qed
    qed
    then show "steady p'" and "\<And>h. time_le (lastReportTime (threadInfos p h)) (lastReportTime (threadInfos p' h))"
      by blast+
  qed
qed

lemma steady_run:
  assumes "steady p" and "run p scs = Some q" and "\<forall>sc\<in>set scs. scope_ok sc"
  shows "steady q \<and> (\<forall>h. time_le (lastReportTime (threadInfos p h)) (lastReportTime (threadInfos q h)))"
  using assms
proof (induction scs arbitrary: p)
  case Nil
  then show ?case by (simp add: time_le_refl)
next
  case (Cons sc scs)
  then obtain p1 where s: "API_PROFILER sc p = Some p1" and r: "run p1 scs = Some q"
    by (auto split: option.splits)
  have ok: "scope_ok sc" using Cons.prems(3) by simp
  from steady_step[OF Cons.prems(1) ok s]
  have s1: "steady p1"
    and t1: "\<And>h. time_le (lastReportTime (threadInfos p h)) (lastReportTime (threadInfos p1 h))"
    by blast+
  have okr: "\<forall>sc\<in>set scs. scope_ok sc" using Cons.prems(3) by simp
  from Cons.IH[OF s1 r okr]
  have s2: "steady q"
    and t2: "\<And>h. time_le (lastReportTime (threadInfos p1 h)) (lastReportTime (threadInfos q h))"
    by blast+
  show ?case using s2 time_le_trans[OF t1 t2] by blast
qed

lemma API_PROFILER_defined:
  assumes "steady p" and "scope_ok sc"
      and "\<bar>accumulator (threadInfos p (record_of sc))\<bar> < 2 ^ 62"
      and "0 \<le> hitCount (threadInfos p (record_of sc))"
      and "hitCount (threadInfos p (record_of sc)) < 2 ^ 62"
  shows "\<exists>p'. API_PROFILER sc p = Some p'"
proof -
  let ?h = "record_of sc"
  let ?ti = "threadInfos p ?h"
  let ?g = "APIProfiler_ctor (entered sc) (thread sc, region sc)"
  have m: "m_threadInfo ?g = ?h" "m_start ?g = entered sc"
    by (simp_all add: APIProfiler_ctor_def record_of_def)
  from assms(1) have ok: "clock_ok (lastReportTime ?ti)" unfolding steady_def by blast
  from assms(2) have oks: "clock_ok (entered sc)" "clock_ok (left sc)"
    by (simp_all add: scope_ok_def)
  from elapsed_total[OF oks] obtain d where d: "elapsed (entered sc) (left sc) = Some d" "\<bar>d\<bar> < 2 ^ 61"
    by blast
  from elapsed_total[OF ok oks(2)] obtain gap where gap: "elapsed (lastReportTime ?ti) (left sc) = Some gap"
    by blast
  have a: "ll (accumulator ?ti + d) \<noteq> None"
    using assms(3) d(2) by (auto simp: ll_def LLONG_MIN_def LLONG_MAX_def abs_less_iff)
  have h: "ll (hitCount ?ti + 1) \<noteq> None"
    using assms(4,5) by (simp add: ll_def LLONG_MIN_def LLONG_MAX_def)
  from Flush_interval_defined[OF ok oks(2)] obtain i where
    i: "Flush_interval (lastReportTime ?ti) (left sc) = Some i" by blast
  let ?p1 = "p\<lparr>threadInfos := (threadInfos p)(?h := counted ?ti d)\<rparr>"
  have "\<exists>p'. Flush (thread sc) ?g (left sc) ?p1 = Some p'"
    by (cases "lastReportTime ?ti = zero_time") (simp_all add: Flush_eq m counted_def i)
  then have "\<exists>p'. (if s_reportInterval p < gap then Flush (thread sc) ?g (left sc) ?p1 else Some ?p1) = Some p'"
    by simp
  then show ?thesis
    unfolding API_PROFILER_def dtor_eq m Let_def
    using a h by (simp add: d gap)
qed

section \<open>The sample runs, step by step\<close>

lemma pct_third: "rd (1500 / 1000007) = 6917480605276845 / 4611686018427387904"
  by code_simp

lemma run_first: "API_PROFILER first_scope initial_process = Some after_first"
  by (simp add: API_PROFILER_def APIProfiler_ctor_def dtor_eq Flush_eq elapsed_exact
        first_scope_def after_first_def initial_process_def DEFINE_API_PROFILER_def db_def
        zero_time_def exact_ns_def cdiv_def counted_def ll_def LLONG_MIN_def LLONG_MAX_def)

lemma run_second: "API_PROFILER second_scope after_first = Some after_second"
  by (simp add: API_PROFILER_def APIProfiler_ctor_def dtor_eq Flush_eq elapsed_exact
        second_scope_def after_first_def after_second_def db_def
        zero_time_def exact_ns_def cdiv_def counted_def ll_def LLONG_MIN_def LLONG_MAX_def)

lemma interval_third:
  "Flush_interval \<lparr>tv_sec = 100, tv_nsec = 0\<rparr> \<lparr>tv_sec = 101, tv_nsec = 7000\<rparr> = Some (Finite False 1000007)"
proof -
  have a: "double_of_int 1000007000 = Finite False 1000007000"
    using double_of_int_exact[of 1000007000] by simp
  have b: "double_of_int 1000 = Finite False 1000"
    using double_of_int_exact[of 1000] by simp
  have c: "mk_double False 1000007 = Finite False 1000007"
    using mk_double_exact[of 1000007 False] by simp
  show ?thesis
    by (simp add: Flush_interval_def ll_def LLONG_MIN_def LLONG_MAX_def a b c)
qed

lemma call_third:
  "report_call 7 \<lparr>lastReportTime = \<lparr>tv_sec = 100, tv_nsec = 0\<rparr>, accumulator = 15, hitCount = 3, name = ''db''\<rparr>
     (Finite False 1000007) = third_report"
proof -
  have a: "double_of_int 15 = Finite False 15"
    using double_of_int_exact[of 15] by simp
  have b: "double_of_int 100 = Finite False 100"
    using double_of_int_exact[of 100] by simp
  have c: "mk_double False 1500 = Finite False 1500"
    using mk_double_exact[of 1500 False] by simp
  have d: "mk_double False (1500 / 1000007) = Finite False (6917480605276845 / 4611686018427387904)"
    by (simp add: mk_double_def pct_third)
  show ?thesis
    by (simp add: report_call_def third_report_def a b c d)
qed

lemma run_third: "API_PROFILER third_scope after_second = Some after_third"
  by (simp add: API_PROFILER_def APIProfiler_ctor_def dtor_eq Flush_eq elapsed_exact
        third_scope_def after_second_def after_third_def db_def interval_third call_third
        zero_time_def exact_ns_def cdiv_def counted_def ll_def LLONG_MIN_def LLONG_MAX_def)

lemma run_fourth_fifth: "run after_third [fourth_scope, fifth_scope] = Some after_fifth"
  by (simp add: API_PROFILER_def APIProfiler_ctor_def dtor_eq Flush_eq elapsed_exact
        fourth_scope_def fifth_scope_def after_third_def after_fifth_def db_def
        zero_time_def exact_ns_def cdiv_def counted_def ll_def LLONG_MIN_def LLONG_MAX_def)

lemma sample_scopes_ok: "scope_ok first_scope" "scope_ok second_scope" "scope_ok third_scope"
  by (simp_all add: scope_ok_def clock_ok_def exact_ns_def first_scope_def second_scope_def
        third_scope_def)

lemma rd_late: "rd 9007199254740993 = 9007199254740992" "rd 9007199254741992 = 9007199254741992"
  by code_simp+

lemma nanosec_late:
  "nanosec \<lparr>tv_sec = 9007199, tv_nsec = 254740993\<rparr> = Some 9007199254740992"
  "nanosec \<lparr>tv_sec = 9007199, tv_nsec = 254741992\<rparr> = Some 9007199254741992"
proof -
  have a: "double_of_int 9007199 = Finite False 9007199"
    using double_of_int_exact[of 9007199] by simp
  have b: "double_of_int 1000000000 = Finite False 1000000000"
    using double_of_int_exact[of 1000000000] by simp
  have c: "double_of_int 254740993 = Finite False 254740993"
    "double_of_int 254741992 = Finite False 254741992"
    using double_of_int_exact[of 254740993] double_of_int_exact[of 254741992] by simp_all
  have d: "mk_double False 9007199000000000 = Finite False 9007199000000000"
    using mk_double_exact[of 9007199000000000 False] by simp
  have e: "mk_double False 9007199254740993 = Finite False 9007199254740992"
    "mk_double False 9007199254741992 = Finite False 9007199254741992"
    by (simp_all add: mk_double_def rd_late)
  show "nanosec \<lparr>tv_sec = 9007199, tv_nsec = 254740993\<rparr> = Some 9007199254740992"
    "nanosec \<lparr>tv_sec = 9007199, tv_nsec = 254741992\<rparr> = Some 9007199254741992"
    by (simp_all add: nanosec_def a b c d e ll_of_double_def ll_def LLONG_MIN_def LLONG_MAX_def)
qed

lemma report_text:
  \<open>printf conv (report_call self ti interval) =
     Some (''TID '' @ conv ''ld'' (Long (sint self)) @ '' time spent in "'' @ name ti @ ''": ''
           @ conv ''.0f'' (Dbl (double_of_int (accumulator ti))) @ ''/'' @ conv ''.0f'' (Dbl interval)
           @ '' microsec ''
           @ conv ''.1f'' (Dbl (ddiv (dmul (double_of_int 100) (double_of_int (accumulator ti))) interval))
           @ ''% '' @ conv ''lld'' (Long (hitCount ti)) @ ''x'' @ [CHR 0x0A])\<close>
  by (simp add: printf_def report_call_def Flush_format_def conversion_letters_def)

section \<open>Programs with the macros disabled\<close>

lemma uninstrumented_list_append:
  "uninstrumented_list (xs @ ys) u = uninstrumented_list ys (uninstrumented_list xs u)"
  by (induction xs arbitrary: u) simp_all

lemma exec_disabled:
  "exec False clk t s (w, gs) = Some (w\<lparr>user := uninstrumented_list (strip s) (user w)\<rparr>, gs)"
  "exec_list False clk t ss (w, gs) =
     Some (w\<lparr>user := uninstrumented_list (strip_list ss) (user w)\<rparr>, gs)"
proof (induction s and ss arbitrary: w gs and w gs rule: strip_strip_list.induct)
qed (simp_all add: uninstrumented_list_append)

lemma exec_enabled_sample:
  "exec True sample_clock 7 sample_program (sample_world, []) =
     Some (\<lparr>user = 1, ticks = 2, proc = after_first\<rparr>, [])"
proof -
  have d: "APIProfiler_dtor 7 \<lparr>tv_sec = 100, tv_nsec = 5000\<rparr>
     (APIProfiler_ctor \<lparr>tv_sec = 100, tv_nsec = 0\<rparr> (7, ''db'')) initial_process = Some after_first"
    using run_first by (simp add: API_PROFILER_def first_scope_def)
  have i: "(threadInfos initial_process)((7, ''db'') := DEFINE_API_PROFILER ''db'') =
             threadInfos initial_process"
    by (auto simp: initial_process_def)
  have "initial_process\<lparr>threadInfos := threadInfos initial_process\<rparr> = initial_process"
    by simp
  then show ?thesis
    by (simp add: sample_program_def sample_world_def sample_clock_def i d)
qed

section \<open>The claims\<close>

text \<open>
  C1. Over \<open>N\<close> measured scopes of one record, starting with the record's counters at zero,
  during which \<^const>\<open>Flush\<close> is never entered, \<^const>\<open>hitCount\<close> ends at \<open>N\<close> and
  \<^const>\<open>accumulator\<close> at the sum of the scopes' elapsed microseconds.
\<close>

theorem counts_without_flush:
  assumes "run p scs = Some q"
      and "\<forall>sc\<in>set scs. record_of sc = h"
      and "flushCalls q = flushCalls p"
      and "accumulator (threadInfos p h) = 0" and "hitCount (threadInfos p h) = 0"
  shows "\<exists>ds. map delta scs = map Some ds \<and>
           hitCount (threadInfos q h) = int (length scs) \<and>
           accumulator (threadInfos q h) = sum_list ds"
proof -
  have "stdout q = stdout p" using assms(1,3) by (rule run_no_flush_quiet)
  from run_quiet_counts[OF assms(1,2) this] assms(4,5) show ?thesis by auto
qed

theorem counts_without_flush_witness:
  "run after_third [fourth_scope, fifth_scope] = Some after_fifth \<and>
   record_of fourth_scope = db \<and> record_of fifth_scope = db \<and>
   flushCalls after_fifth = flushCalls after_third \<and>
   accumulator (threadInfos after_third db) = 0 \<and> hitCount (threadInfos after_third db) = 0 \<and>
   map delta [fourth_scope, fifth_scope] = map Some [2, 9] \<and>
   hitCount (threadInfos after_fifth db) = 2 \<and>
   accumulator (threadInfos after_fifth db) = 11"
proof -
  have r: "\<forall>sc\<in>set [fourth_scope, fifth_scope]. record_of sc = db"
    by (simp add: record_of_def fourth_scope_def fifth_scope_def db_def)
  have f: "flushCalls after_fifth = flushCalls after_third"
    by (simp add: after_fifth_def after_third_def)
  have z: "accumulator (threadInfos after_third db) = 0" "hitCount (threadInfos after_third db) = 0"
    by (simp_all add: after_third_def)
  have d: "map delta [fourth_scope, fifth_scope] = map Some [2, 9]"
    by (simp add: delta_def fourth_scope_def fifth_scope_def elapsed_exact exact_ns_def cdiv_def)
  from counts_without_flush[OF run_fourth_fifth r f z] d
  have "hitCount (threadInfos after_fifth db) = 2 \<and> accumulator (threadInfos after_fifth db) = 11"
    by (auto simp: map_eq_Cons_conv)
  then show ?thesis using run_fourth_fifth r f z d by simp
qed

text \<open>
  C2. A guard's destruction enters \<^const>\<open>Flush\<close> exactly when the microseconds elapsed from the
  record's \<^const>\<open>lastReportTime\<close> to the reading taken at the destruction exceed
  \<^const>\<open>s_reportInterval\<close>; when they do not, nothing is printed.
\<close>

theorem destructor_flush_condition:
  assumes "APIProfiler_dtor self e this p = Some p'"
  shows "\<exists>gap. elapsed (lastReportTime (threadInfos p (m_threadInfo this))) e = Some gap \<and>
           (flushCalls p' = Suc (flushCalls p) \<longleftrightarrow> s_reportInterval p < gap) \<and>
           (flushCalls p' = flushCalls p \<longleftrightarrow> gap \<le> s_reportInterval p) \<and>
           (gap \<le> s_reportInterval p \<longrightarrow> stdout p' = stdout p)"
proof -
  from assms obtain d gap where
    gap: "elapsed (lastReportTime (threadInfos p (m_threadInfo this))) e = Some gap"
    and step: "if s_reportInterval p < gap
     then Flush self this e
            (p\<lparr>threadInfos := (threadInfos p)
                 (m_threadInfo this := counted (threadInfos p (m_threadInfo this)) d)\<rparr>) = Some p'
     else p' = p\<lparr>threadInfos := (threadInfos p)
                 (m_threadInfo this := counted (threadInfos p (m_threadInfo this)) d)\<rparr>"
    by (rule dtor_cases)
  show ?thesis
  proof (cases "s_reportInterval p < gap")
    case True
    with step have "flushCalls p' = Suc (flushCalls p)"
      by (auto dest: Flush_effect(1))
    with True gap show ?thesis by auto
  next
    case False
    with step have "flushCalls p' = flushCalls p" "stdout p' = stdout p" by simp_all
    with False gap show ?thesis by auto
  qed
qed

theorem destructor_flush_condition_witness:
  "APIProfiler_dtor 7 \<lparr>tv_sec = 100, tv_nsec = 9000\<rparr>
      (APIProfiler_ctor \<lparr>tv_sec = 100, tv_nsec = 6000\<rparr> db) after_first = Some after_second \<and>
   elapsed \<lparr>tv_sec = 100, tv_nsec = 0\<rparr> \<lparr>tv_sec = 100, tv_nsec = 9000\<rparr> = Some 9 \<and>
   flushCalls after_second = flushCalls after_first \<and> stdout after_second = stdout after_first \<and>
   APIProfiler_dtor 7 \<lparr>tv_sec = 101, tv_nsec = 7000\<rparr>
      (APIProfiler_ctor \<lparr>tv_sec = 101, tv_nsec = 0\<rparr> db) after_second = Some after_third \<and>
   elapsed \<lparr>tv_sec = 100, tv_nsec = 0\<rparr> \<lparr>tv_sec = 101, tv_nsec = 7000\<rparr> = Some 1000007 \<and>
   flushCalls after_third = Suc (flushCalls after_second)"
proof -
  have h2: "APIProfiler_dtor 7 \<lparr>tv_sec = 100, tv_nsec = 9000\<rparr>
      (APIProfiler_ctor \<lparr>tv_sec = 100, tv_nsec = 6000\<rparr> db) after_first = Some after_second"
    using run_second by (simp add: API_PROFILER_def second_scope_def db_def)
  have h3: "APIProfiler_dtor 7 \<lparr>tv_sec = 101, tv_nsec = 7000\<rparr>
      (APIProfiler_ctor \<lparr>tv_sec = 101, tv_nsec = 0\<rparr> db) after_second = Some after_third"
    using run_third by (simp add: API_PROFILER_def third_scope_def db_def)
  have g2: "elapsed \<lparr>tv_sec = 100, tv_nsec = 0\<rparr> \<lparr>tv_sec = 100, tv_nsec = 9000\<rparr> = Some 9"
    and g3: "elapsed \<lparr>tv_sec = 100, tv_nsec = 0\<rparr> \<lparr>tv_sec = 101, tv_nsec = 7000\<rparr> = Some 1000007"
    by (simp_all add: elapsed_exact exact_ns_def cdiv_def)
  from destructor_flush_condition[OF h2]
  have "flushCalls after_second = flushCalls after_first \<and> stdout after_second = stdout after_first"
    by (simp add: APIProfiler_ctor_def after_first_def g2)
  moreover from destructor_flush_condition[OF h3]
  have "flushCalls after_third = Suc (flushCalls after_second)"
    by (simp add: APIProfiler_ctor_def after_second_def g3)
  ultimately show ?thesis using h2 h3 g2 g3 by simp
qed

text \<open>
  C3, as the code has it. The first destruction on a record as \<^const>\<open>DEFINE_API_PROFILER\<close>
  created it prints nothing. It adds the scope's elapsed microseconds to \<^const>\<open>accumulator\<close>
  and one to \<^const>\<open>hitCount\<close>; \<^const>\<open>lastReportTime\<close> becomes the guard's start when the
  microseconds from the zero time to the end exceed \<^const>\<open>s_reportInterval\<close>, and stays zero
  otherwise. The sample run's first scope shows that the record's counters change as well.
\<close>

theorem first_destruction:
  assumes "threadInfos p (m_threadInfo this) = DEFINE_API_PROFILER n"
      and "APIProfiler_dtor self e this p = Some p'"
  shows "stdout p' = stdout p \<and>
         (\<exists>d gap. elapsed (m_start this) e = Some d \<and> elapsed zero_time e = Some gap \<and>
            threadInfos p' (m_threadInfo this) =
              \<lparr>lastReportTime = (if s_reportInterval p < gap then m_start this else zero_time),
               accumulator = d, hitCount = 1, name = n\<rparr>)"
proof -
  let ?ti = "threadInfos p (m_threadInfo this)"
  have z: "lastReportTime ?ti = zero_time"
    by (simp add: assms(1) DEFINE_API_PROFILER_def)
  from assms(2) obtain d gap where d: "elapsed (m_start this) e = Some d"
    and gap: "elapsed (lastReportTime ?ti) e = Some gap"
    and step: "if s_reportInterval p < gap
     then Flush self this e (p\<lparr>threadInfos := (threadInfos p) (m_threadInfo this := counted ?ti d)\<rparr>) = Some p'
     else p' = p\<lparr>threadInfos := (threadInfos p) (m_threadInfo this := counted ?ti d)\<rparr>"
    by (rule dtor_cases)
  let ?p1 = "p\<lparr>threadInfos := (threadInfos p) (m_threadInfo this := counted ?ti d)\<rparr>"
  have z1: "lastReportTime (threadInfos ?p1 (m_threadInfo this)) = zero_time"
    using z by (simp add: counted_def)
  show ?thesis
  proof (cases "s_reportInterval p < gap")
    case True
    with step have f: "Flush self this e ?p1 = Some p'" by simp
    from Flush_effect(4)[OF f z1] True d gap z show ?thesis
      by (auto simp: counted_def assms(1) DEFINE_API_PROFILER_def)
  next
    case False
    with step d gap z show ?thesis
      by (auto simp: counted_def assms(1) DEFINE_API_PROFILER_def)
  qed
qed

theorem first_destruction_counterexample:
  "API_PROFILER first_scope initial_process = Some after_first \<and>
   threadInfos initial_process (record_of first_scope) = DEFINE_API_PROFILER ''db'' \<and>
   threadInfos after_first (record_of first_scope) \<noteq>
     (threadInfos initial_process (record_of first_scope))\<lparr>lastReportTime := entered first_scope\<rparr> \<and>
   accumulator (threadInfos after_first (record_of first_scope)) = 5 \<and>
   hitCount (threadInfos after_first (record_of first_scope)) = 1"
  by (simp add: run_first)
     (simp add: after_first_def initial_process_def record_of_def first_scope_def db_def
        DEFINE_API_PROFILER_def)

theorem first_destruction_witness:
  "threadInfos initial_process db = DEFINE_API_PROFILER ''db'' \<and>
   APIProfiler_dtor 7 \<lparr>tv_sec = 100, tv_nsec = 5000\<rparr>
     (APIProfiler_ctor \<lparr>tv_sec = 100, tv_nsec = 0\<rparr> db) initial_process = Some after_first \<and>
   stdout after_first = stdout initial_process \<and>
   elapsed \<lparr>tv_sec = 100, tv_nsec = 0\<rparr> \<lparr>tv_sec = 100, tv_nsec = 5000\<rparr> = Some 5 \<and>
   elapsed zero_time \<lparr>tv_sec = 100, tv_nsec = 5000\<rparr> = Some 100000005 \<and>
   threadInfos after_first db =
     \<lparr>lastReportTime = \<lparr>tv_sec = 100, tv_nsec = 0\<rparr>, accumulator = 5, hitCount = 1, name = ''db''\<rparr>"
proof -
  have h1: "threadInfos initial_process (m_threadInfo (APIProfiler_ctor \<lparr>tv_sec = 100, tv_nsec = 0\<rparr> db))
             = DEFINE_API_PROFILER ''db''"
    by (simp add: initial_process_def db_def APIProfiler_ctor_def)
  have h2: "APIProfiler_dtor 7 \<lparr>tv_sec = 100, tv_nsec = 5000\<rparr>
     (APIProfiler_ctor \<lparr>tv_sec = 100, tv_nsec = 0\<rparr> db) initial_process = Some after_first"
    using run_first by (simp add: API_PROFILER_def first_scope_def db_def)
  have g: "elapsed \<lparr>tv_sec = 100, tv_nsec = 0\<rparr> \<lparr>tv_sec = 100, tv_nsec = 5000\<rparr> = Some 5"
    "elapsed zero_time \<lparr>tv_sec = 100, tv_nsec = 5000\<rparr> = Some 100000005"
    by (simp_all add: elapsed_exact exact_ns_def cdiv_def zero_time_def)
  from first_destruction[OF h1 h2] g
  have "stdout after_first = stdout initial_process \<and>
        threadInfos after_first db =
          \<lparr>lastReportTime = \<lparr>tv_sec = 100, tv_nsec = 0\<rparr>, accumulator = 5, hitCount = 1, name = ''db''\<rparr>"
    by (simp add: APIProfiler_ctor_def initial_process_def)
  with h1 h2 g show ?thesis by (simp add: APIProfiler_ctor_def)
qed

text \<open>
  C4. In every state that a run from \<^const>\<open>initial_process\<close> reaches, a destruction that
  prints a report divides by an interval that exceeds \<^const>\<open>s_reportInterval\<close>, which is
  positive then. The clock readings are normalised and below \<open>2 ^ 60\<close> ns, so that the
  rounding of the destructor's \<^verbatim>\<open>double\<close> arithmetic moves a reading by at most 258 ns.
\<close>

theorem division_by_positive_interval:
  assumes "run initial_process scs = Some p" and "\<forall>sc\<in>set scs. scope_ok sc"
      and "scope_ok sc" and "API_PROFILER sc p = Some p'" and "stdout p' \<noteq> stdout p"
  shows "\<exists>v ti. stdout p' = stdout p @ [report_call (thread sc) ti (Finite False v)] \<and>
           Flush_interval (lastReportTime (threadInfos p (record_of sc))) (left sc) =
             Some (Finite False v) \<and>
           of_int (s_reportInterval p) < v \<and> 0 < s_reportInterval p"
proof -
  let ?g = "APIProfiler_ctor (entered sc) (thread sc, region sc)"
  let ?ti = "threadInfos p (record_of sc)"
  have m: "m_threadInfo ?g = record_of sc"
    by (simp add: APIProfiler_ctor_def record_of_def)
  from steady_run[OF steady_initial assms(1,2)] have st: "steady p" by simp
  from assms(4)[unfolded API_PROFILER_def] assms(5) obtain d gap interval where
    gap: "elapsed (lastReportTime (threadInfos p (m_threadInfo ?g))) (left sc) = Some gap"
    and trig: "s_reportInterval p < gap"
    and ns: "lastReportTime (threadInfos p (m_threadInfo ?g)) \<noteq> zero_time"
    and iv: "Flush_interval (lastReportTime (threadInfos p (m_threadInfo ?g))) (left sc) = Some interval"
    and out: "stdout p' = stdout p @
       [report_call (thread sc) (counted (threadInfos p (m_threadInfo ?g)) d) interval]"
    by (rule dtor_report)
  from st ns have ri: "s_reportInterval p = 1000000"
    unfolding steady_def m by blast
  from st have ok: "clock_ok (lastReportTime ?ti)"
    unfolding steady_def by blast
  have oke: "clock_ok (left sc)" using assms(3) by (simp add: scope_ok_def)
  from elapsed_near[OF ok oke gap[unfolded m] _ trig] ri
  have "1000000484 \<le> exact_ns (left sc) - exact_ns (lastReportTime ?ti)" by simp
  from Flush_interval_large[OF ok oke this] obtain v where
    v: "Flush_interval (lastReportTime ?ti) (left sc) = Some (Finite False v)" "1000000 < v"
    by blast
  with iv have "interval = Finite False v" by (simp add: m)
  with out v ri show ?thesis
    unfolding m by (intro exI[of _ v] exI[of _ "counted ?ti d"]) simp
qed

theorem division_by_positive_interval_witness:
  "run initial_process [first_scope, second_scope] = Some after_second \<and>
   scope_ok first_scope \<and> scope_ok second_scope \<and> scope_ok third_scope \<and>
   API_PROFILER third_scope after_second = Some after_third \<and>
   stdout after_third \<noteq> stdout after_second \<and>
   Flush_interval \<lparr>tv_sec = 100, tv_nsec = 0\<rparr> \<lparr>tv_sec = 101, tv_nsec = 7000\<rparr> =
     Some (Finite False 1000007) \<and>
   s_reportInterval after_second = 1000000"
proof -
  have r: "run initial_process [first_scope, second_scope] = Some after_second"
    by (simp add: run_first run_second)
  have oks: "\<forall>sc\<in>set [first_scope, second_scope]. scope_ok sc"
    by (simp add: sample_scopes_ok)
  have o: "stdout after_third \<noteq> stdout after_second"
    by (simp add: after_third_def after_second_def)
  from division_by_positive_interval[OF r oks sample_scopes_ok(3) run_third o]
  have "0 < s_reportInterval after_second" by blast
  moreover have "s_reportInterval after_second = 0 \<or> s_reportInterval after_second = 1000000"
    by (simp add: after_second_def)
  ultimately have "s_reportInterval after_second = 1000000" by simp
  with r o show ?thesis
    by (simp add: sample_scopes_ok run_third interval_third)
qed

text \<open>
  C5. A call of \<^const>\<open>Flush\<close> that prints sets the record's \<^const>\<open>lastReportTime\<close> to its
  end time and \<^const>\<open>accumulator\<close> and \<^const>\<open>hitCount\<close> to zero; and from any state that a
  run from \<^const>\<open>initial_process\<close> reaches, no further run moves any record's
  \<^const>\<open>lastReportTime\<close> backwards (clock readings as for C4).
\<close>

theorem flush_resets_and_time_advances:
  assumes "run initial_process scs = Some p" and "\<forall>sc\<in>set scs. scope_ok sc"
      and "run p scs' = Some q" and "\<forall>sc\<in>set scs'. scope_ok sc"
  shows "(\<forall>self this e r r'.
            Flush self this e r = Some r' \<longrightarrow> stdout r' \<noteq> stdout r \<longrightarrow>
            threadInfos r' (m_threadInfo this) =
              (threadInfos r (m_threadInfo this))
                \<lparr>lastReportTime := e, accumulator := 0, hitCount := 0\<rparr>) \<and>
         (\<forall>h. time_le (lastReportTime (threadInfos p h)) (lastReportTime (threadInfos q h)))"
proof (intro conjI allI impI)
  fix self this e r r'
  assume f: "Flush self this e r = Some r'" and o: "stdout r' \<noteq> stdout r"
  have "lastReportTime (threadInfos r (m_threadInfo this)) \<noteq> zero_time"
    using Flush_effect(4)[OF f] o by blast
  from Flush_effect(5)[OF f this]
  show "threadInfos r' (m_threadInfo this) =
          (threadInfos r (m_threadInfo this))\<lparr>lastReportTime := e, accumulator := 0, hitCount := 0\<rparr>"
    by blast
next
  fix h
  from steady_run[OF steady_initial assms(1,2)] have "steady p" by simp
  from steady_run[OF this assms(3,4)]
  show "time_le (lastReportTime (threadInfos p h)) (lastReportTime (threadInfos q h))" by blast
qed

theorem flush_resets_and_time_advances_witness:
  "run initial_process [first_scope] = Some after_first \<and> scope_ok first_scope \<and>
   run after_first [second_scope, third_scope] = Some after_third \<and>
   scope_ok second_scope \<and> scope_ok third_scope \<and>
   Flush 7 third_guard \<lparr>tv_sec = 101, tv_nsec = 7000\<rparr> third_counted = Some after_third \<and>
   stdout after_third \<noteq> stdout third_counted \<and>
   threadInfos after_third db =
     \<lparr>lastReportTime = \<lparr>tv_sec = 101, tv_nsec = 7000\<rparr>, accumulator = 0, hitCount = 0,
      name = ''db''\<rparr> \<and>
   time_le \<lparr>tv_sec = 100, tv_nsec = 0\<rparr> \<lparr>tv_sec = 101, tv_nsec = 7000\<rparr>"
proof -
  have r1: "run initial_process [first_scope] = Some after_first"
    by (simp add: run_first)
  have ok1: "\<forall>sc\<in>set [first_scope]. scope_ok sc" by (simp add: sample_scopes_ok)
  have r2: "run after_first [second_scope, third_scope] = Some after_third"
    by (simp add: run_second run_third)
  have ok2: "\<forall>sc\<in>set [second_scope, third_scope]. scope_ok sc" by (simp add: sample_scopes_ok)
  have f: "Flush 7 third_guard \<lparr>tv_sec = 101, tv_nsec = 7000\<rparr> third_counted = Some after_third"
    by (simp add: Flush_eq third_guard_def APIProfiler_ctor_def third_counted_def after_third_def
          after_second_def db_def interval_third call_third zero_time_def)
  have o: "stdout after_third \<noteq> stdout third_counted"
    by (simp add: after_third_def third_counted_def after_second_def)
  note t = flush_resets_and_time_advances[OF r1 ok1 r2 ok2]
  from t f o have "threadInfos after_third (m_threadInfo third_guard) =
      (threadInfos third_counted (m_threadInfo third_guard))
        \<lparr>lastReportTime := \<lparr>tv_sec = 101, tv_nsec = 7000\<rparr>, accumulator := 0, hitCount := 0\<rparr>"
    by blast
  then have a: "threadInfos after_third db =
     \<lparr>lastReportTime = \<lparr>tv_sec = 101, tv_nsec = 7000\<rparr>, accumulator = 0, hitCount = 0,
      name = ''db''\<rparr>"
    by (simp add: third_guard_def APIProfiler_ctor_def third_counted_def)
  from t have "time_le (lastReportTime (threadInfos after_first db))
                 (lastReportTime (threadInfos after_third db))"
    by blast
  then have b: "time_le \<lparr>tv_sec = 100, tv_nsec = 0\<rparr> \<lparr>tv_sec = 101, tv_nsec = 7000\<rparr>"
    by (simp add: after_first_def after_third_def)
  show ?thesis using r1 r2 f o a b by (simp add: sample_scopes_ok)
qed

text \<open>
  C6. \<^const>\<open>s_reportInterval\<close> is assigned only while it is zero, and then receives the
  microseconds of \<^const>\<open>APIProfiler_ReportIntervalSecs\<close>, one second: from then on no run
  changes it.
\<close>

theorem report_interval_computed_once:
  assumes "run p scs = Some q"
  shows "(s_reportInterval p \<noteq> 0 \<longrightarrow> s_reportInterval q = s_reportInterval p) \<and>
         (s_reportInterval p = 0 \<longrightarrow>
            s_reportInterval q = 0 \<or>
            Some (s_reportInterval q) =
              ll_of_double (dmul (double_of_int 1000000) APIProfiler_ReportIntervalSecs) \<and>
            s_reportInterval q = 1000000)"
  using assms
proof (induction scs arbitrary: p)
  case Nil
  then show ?case by simp
next
  case (Cons sc scs)
  then obtain p1 where s: "API_PROFILER sc p = Some p1" and r: "run p1 scs = Some q"
    by (auto split: option.splits)
  from s have "s_reportInterval p1 = s_reportInterval p \<or>
         (s_reportInterval p = 0 \<and> s_reportInterval p1 = 1000000)"
    unfolding API_PROFILER_def by (rule dtor_interval)
  with Cons.IH[OF r] show ?case
    by (auto simp: report_interval_value)
qed

theorem report_interval_computed_once_witness:
  "run initial_process [first_scope, second_scope, third_scope] = Some after_third \<and>
   s_reportInterval initial_process = 0 \<and> s_reportInterval after_third = 1000000 \<and>
   run after_first [second_scope, third_scope] = Some after_third \<and>
   s_reportInterval after_first = 1000000"
proof -
  have h: "run initial_process [first_scope, second_scope, third_scope] = Some after_third"
    by (simp add: run_first run_second run_third)
  have h': "run after_first [second_scope, third_scope] = Some after_third"
    by (simp add: run_second run_third)
  have z: "s_reportInterval initial_process = 0" by (simp add: initial_process_def)
  have n: "s_reportInterval after_first \<noteq> 0" by (simp add: after_first_def)
  from report_interval_computed_once[OF h'] n
  have "s_reportInterval after_third = s_reportInterval after_first" by simp
  moreover from report_interval_computed_once[OF h] z
  have "s_reportInterval after_third = 0 \<or> s_reportInterval after_third = 1000000" by auto
  ultimately show ?thesis using h h' z by (simp add: after_first_def)
qed

text \<open>
  C7. A report is one line: \<open>TID\<close> and the calling thread's id, \<open>time spent in "<name>":\<close>
  with the record's name, the accumulated and the interval microseconds as
  \<open>measured/interval microsec\<close>, the percentage \<open>100 * measured / interval\<close> followed by
  \<open>%\<close>, the hit count followed by \<open>x\<close>, in this order, whatever the C library's rendering
  \<open>conv\<close> of the numbers.
\<close>

theorem Flush_line_format:
  assumes "Flush self this e p = Some p'" and "stdout p' \<noteq> stdout p"
  shows \<open>\<exists>interval.
           Flush_interval (lastReportTime (threadInfos p (m_threadInfo this))) e = Some interval \<and>
           stdout p' = stdout p @ [report_call self (threadInfos p (m_threadInfo this)) interval] \<and>
           printf conv (report_call self (threadInfos p (m_threadInfo this)) interval) =
             Some (''TID '' @ conv ''ld'' (Long (sint self))
                   @ '' time spent in "'' @ name (threadInfos p (m_threadInfo this)) @ ''": ''
                   @ conv ''.0f'' (Dbl (double_of_int (accumulator (threadInfos p (m_threadInfo this)))))
                   @ ''/'' @ conv ''.0f'' (Dbl interval)
                   @ '' microsec ''
                   @ conv ''.1f''
                       (Dbl (ddiv (dmul (double_of_int 100)
                                 (double_of_int (accumulator (threadInfos p (m_threadInfo this)))))
                               interval))
                   @ ''% '' @ conv ''lld'' (Long (hitCount (threadInfos p (m_threadInfo this))))
                   @ ''x'' @ [CHR 0x0A])\<close>
proof -
  let ?ti = "threadInfos p (m_threadInfo this)"
  from assms have ns: "lastReportTime ?ti \<noteq> zero_time"
    by (auto simp: Flush_eq Let_def split: if_splits)
  with assms(1) obtain interval where i: "Flush_interval (lastReportTime ?ti) e = Some interval"
    and out: "stdout p' = stdout p @ [report_call self ?ti interval]"
    by (auto simp: Flush_eq Let_def split: option.splits)
  show ?thesis
    using i out report_text[of conv self ?ti interval] by blast
qed

theorem Flush_line_format_witness:
  \<open>Flush 7 third_guard \<lparr>tv_sec = 101, tv_nsec = 7000\<rparr> third_counted = Some after_third \<and>
   stdout after_third \<noteq> stdout third_counted \<and>
   printf (\<lambda>spec a. ''#'') third_report =
     Some (''TID # time spent in "db": #/# microsec #% #x'' @ [CHR 0x0A])\<close>
proof -
  have h1: "Flush 7 third_guard \<lparr>tv_sec = 101, tv_nsec = 7000\<rparr> third_counted = Some after_third"
    by (simp add: Flush_eq third_guard_def APIProfiler_ctor_def third_counted_def after_third_def
          after_second_def db_def interval_third call_third zero_time_def)
  have h2: "stdout after_third \<noteq> stdout third_counted"
    by (simp add: after_third_def third_counted_def after_second_def)
  from Flush_line_format[OF h1 h2, of "\<lambda>spec a. ''#''"]
  have "printf (\<lambda>spec a. ''#'') third_report =
     Some (''TID # time spent in '' @ [CHR 0x22] @ ''db'' @ [CHR 0x22] @ '': #/# microsec #% #x'' @ [CHR 0x0A])"
    by (auto simp: after_third_def third_counted_def after_second_def third_guard_def
          APIProfiler_ctor_def db_def)
  then show ?thesis using h1 h2 by simp
qed

text \<open>
  C8. With \<^verbatim>\<open>ENABLE_API_PROFILER\<close> off, code that uses the three macros does to the client's
  state what the code without them does, whatever the clock; it leaves the process (records,
  \<^const>\<open>s_reportInterval\<close>, \<^const>\<open>stdout\<close>) as it was, reads no clock and keeps no guard.
\<close>

theorem disabled_is_uninstrumented:
  "exec False clk t s (w, gs) = Some (w\<lparr>user := uninstrumented_list (strip s) (user w)\<rparr>, gs) \<and>
   proc (w\<lparr>user := uninstrumented_list (strip s) (user w)\<rparr>) = proc w \<and>
   ticks (w\<lparr>user := uninstrumented_list (strip s) (user w)\<rparr>) = ticks w"
  by (simp add: exec_disabled)

theorem disabled_is_uninstrumented_witness:
  "exec False sample_clock 7 sample_program (sample_world, []) = Some (sample_world\<lparr>user := 1\<rparr>, []) \<and>
   strip sample_program = [Block [Block [Work Suc]]] \<and>
   exec True sample_clock 7 sample_program (sample_world, []) =
     Some (\<lparr>user = 1, ticks = 2, proc = after_first\<rparr>, [])"
proof -
  have s: "strip sample_program = [Block [Block [Work Suc]]]"
    by (simp add: sample_program_def)
  from disabled_is_uninstrumented[of sample_clock 7 sample_program sample_world "[]"]
  have "exec False sample_clock 7 sample_program (sample_world, []) =
          Some (sample_world\<lparr>user := 1\<rparr>, [])"
    by (simp add: s sample_world_def)
  then show ?thesis using s exec_enabled_sample by simp
qed

text \<open>
  C9. When \<^const>\<open>Flush\<close> finds \<^const>\<open>lastReportTime\<close> at zero it returns before the reset:
  nothing is printed, and the record keeps its counters, the contribution of the guard that
  caused the call included. The first later report of the record prints them, together with
  what the scopes in between and the reporting scope added.
\<close>

theorem sentinel_flush_keeps_counts:
  assumes fresh: "lastReportTime (threadInfos p h) = zero_time"
      and first: "API_PROFILER sc0 p = Some p1" "record_of sc0 = h" "flushCalls p1 = Suc (flushCalls p)"
      and mid: "run p1 scs = Some p2" "\<forall>sc\<in>set scs. record_of sc = h" "stdout p2 = stdout p1"
      and rep: "API_PROFILER sc p2 = Some p3" "record_of sc = h" "stdout p3 \<noteq> stdout p2"
  shows "\<exists>d0 ds d interval.
           delta sc0 = Some d0 \<and> map delta scs = map Some ds \<and> delta sc = Some d \<and>
           stdout p1 = stdout p \<and>
           threadInfos p1 h = (counted (threadInfos p h) d0)\<lparr>lastReportTime := entered sc0\<rparr> \<and>
           stdout p3 = stdout p2 @
             [report_call (thread sc)
                ((threadInfos p2 h)
                   \<lparr>accumulator := accumulator (threadInfos p h) + d0 + sum_list ds + d,
                    hitCount := hitCount (threadInfos p h) + 1 + int (length scs) + 1\<rparr>)
                interval]"
proof -
  let ?g0 = "APIProfiler_ctor (entered sc0) (thread sc0, region sc0)"
  have m0: "m_threadInfo ?g0 = h" "m_start ?g0 = entered sc0"
    using first(2) by (simp_all add: APIProfiler_ctor_def record_of_def)
  note s0 = first(1)[unfolded API_PROFILER_def]
  from s0 obtain d0 gap0 where d0: "elapsed (m_start ?g0) (left sc0) = Some d0"
    and step: "if s_reportInterval p < gap0
     then Flush (thread sc0) ?g0 (left sc0)
            (p\<lparr>threadInfos := (threadInfos p)
                 (m_threadInfo ?g0 := counted (threadInfos p (m_threadInfo ?g0)) d0)\<rparr>) = Some p1
     else p1 = p\<lparr>threadInfos := (threadInfos p)
                 (m_threadInfo ?g0 := counted (threadInfos p (m_threadInfo ?g0)) d0)\<rparr>"
    by (rule dtor_cases)
  let ?p0 = "p\<lparr>threadInfos := (threadInfos p) (h := counted (threadInfos p h) d0)\<rparr>"
  from step first(3) have f: "Flush (thread sc0) ?g0 (left sc0) ?p0 = Some p1"
    unfolding m0 by (auto split: if_splits)
  have "lastReportTime (threadInfos ?p0 (m_threadInfo ?g0)) = zero_time"
    using fresh by (simp add: m0 counted_def)
  from Flush_effect(4)[OF f this]
  have p1: "stdout p1 = stdout p"
    "threadInfos p1 h = (counted (threadInfos p h) d0)\<lparr>lastReportTime := entered sc0\<rparr>"
    by (simp_all add: m0)
  from run_quiet_counts[OF mid] obtain ds where ds: "map delta scs = map Some ds"
    "accumulator (threadInfos p2 h) = accumulator (threadInfos p1 h) + sum_list ds"
    "hitCount (threadInfos p2 h) = hitCount (threadInfos p1 h) + int (length scs)"
    by auto
  let ?g = "APIProfiler_ctor (entered sc) (thread sc, region sc)"
  have m: "m_threadInfo ?g = h" "m_start ?g = entered sc"
    using rep(2) by (simp_all add: APIProfiler_ctor_def record_of_def)
  from rep(1)[unfolded API_PROFILER_def] rep(3) obtain d interval where
    d: "elapsed (m_start ?g) (left sc) = Some d"
    and out: "stdout p3 = stdout p2 @
       [report_call (thread sc) (counted (threadInfos p2 (m_threadInfo ?g)) d) interval]"
    by (rule dtor_report)
  have "counted (threadInfos p2 h) d =
          (threadInfos p2 h)
             \<lparr>accumulator := accumulator (threadInfos p h) + d0 + sum_list ds + d,
              hitCount := hitCount (threadInfos p h) + 1 + int (length scs) + 1\<rparr>"
    using ds(2,3) p1(2) by (simp add: counted_def)
  with out have "stdout p3 = stdout p2 @
             [report_call (thread sc)
                ((threadInfos p2 h)
                   \<lparr>accumulator := accumulator (threadInfos p h) + d0 + sum_list ds + d,
                    hitCount := hitCount (threadInfos p h) + 1 + int (length scs) + 1\<rparr>)
                interval]"
    by (simp add: m)
  moreover have "delta sc0 = Some d0" "delta sc = Some d"
    using d0 d by (simp_all add: delta_def m0 m)
  ultimately show ?thesis using ds(1) p1 by blast
qed

theorem sentinel_flush_keeps_counts_witness:
  "lastReportTime (threadInfos initial_process db) = zero_time \<and>
   API_PROFILER first_scope initial_process = Some after_first \<and>
   record_of first_scope = db \<and> flushCalls after_first = Suc (flushCalls initial_process) \<and>
   run after_first [second_scope] = Some after_second \<and> record_of second_scope = db \<and>
   stdout after_second = stdout after_first \<and>
   API_PROFILER third_scope after_second = Some after_third \<and> record_of third_scope = db \<and>
   stdout after_third \<noteq> stdout after_second \<and>
   delta first_scope = Some 5 \<and> delta second_scope = Some 3 \<and> delta third_scope = Some 7 \<and>
   accumulator (threadInfos after_first db) = 5 \<and> hitCount (threadInfos after_first db) = 1 \<and>
   stdout after_third =
     [report_call 7 \<lparr>lastReportTime = \<lparr>tv_sec = 100, tv_nsec = 0\<rparr>, accumulator = 15, hitCount = 3,
        name = ''db''\<rparr> (Finite False 1000007)]"
proof -
  have a: "lastReportTime (threadInfos initial_process db) = zero_time"
    by (simp add: initial_process_def db_def DEFINE_API_PROFILER_def)
  have r: "record_of first_scope = db" "record_of second_scope = db" "record_of third_scope = db"
    by (simp_all add: record_of_def first_scope_def second_scope_def third_scope_def db_def)
  have f: "flushCalls after_first = Suc (flushCalls initial_process)"
    by (simp add: after_first_def initial_process_def)
  have m: "run after_first [second_scope] = Some after_second"
    by (simp add: run_second)
  have m': "\<forall>sc\<in>set [second_scope]. record_of sc = db" using r by simp
  have q: "stdout after_second = stdout after_first"
    by (simp add: after_first_def after_second_def)
  have o: "stdout after_third \<noteq> stdout after_second"
    by (simp add: after_third_def after_second_def)
  have d: "delta first_scope = Some 5" "delta second_scope = Some 3" "delta third_scope = Some 7"
    by (simp_all add: delta_def first_scope_def second_scope_def third_scope_def elapsed_exact
          exact_ns_def cdiv_def)
  from sentinel_flush_keeps_counts[OF a run_first r(1) f m m' q run_third r(3) o] d
  have "accumulator (threadInfos after_first db) = 5 \<and> hitCount (threadInfos after_first db) = 1"
    by (auto simp: counted_def initial_process_def db_def DEFINE_API_PROFILER_def)
  moreover have "stdout after_third =
     [report_call 7 \<lparr>lastReportTime = \<lparr>tv_sec = 100, tv_nsec = 0\<rparr>, accumulator = 15, hitCount = 3,
        name = ''db''\<rparr> (Finite False 1000007)]"
    by (simp add: after_third_def call_third)
  ultimately show ?thesis using a run_first r f m q run_third o d by simp
qed

text \<open>
  C10. For clock readings below \<open>2 ^ 53\<close> ns the destructor adds the elapsed nanoseconds
  divided by 1000, the fraction dropped (\<open>delta_exact\<close>). From \<open>2 ^ 53\<close> ns on,
  \<^verbatim>\<open>tv_sec * 1e9 + tv_nsec\<close> is rounded to a \<^verbatim>\<open>double\<close>: the scope below lasts 999 ns and
  adds one microsecond.
\<close>

theorem late_scope_rounds_up:
  "exact_ns (left late_scope) - exact_ns (entered late_scope) = 999 \<and>
   delta late_scope = Some 1 \<and>
   API_PROFILER late_scope initial_process = Some after_late \<and>
   accumulator (threadInfos initial_process (record_of late_scope)) = 0 \<and>
   accumulator (threadInfos after_late (record_of late_scope)) = 1"
proof -
  have z: "nanosec zero_time = Some 0"
    using nanosec_exact[of zero_time] by (simp add: zero_time_def exact_ns_def)
  have d: "elapsed \<lparr>tv_sec = 9007199, tv_nsec = 254740993\<rparr> \<lparr>tv_sec = 9007199, tv_nsec = 254741992\<rparr> = Some 1"
    by (simp add: elapsed_def nanosec_late ll_def LLONG_MIN_def LLONG_MAX_def cdiv_def)
  have g: "elapsed zero_time \<lparr>tv_sec = 9007199, tv_nsec = 254741992\<rparr> = Some 9007199254741"
    by (simp add: elapsed_def nanosec_late z ll_def LLONG_MIN_def LLONG_MAX_def cdiv_def)
  have "API_PROFILER late_scope initial_process = Some after_late"
    by (simp add: API_PROFILER_def APIProfiler_ctor_def dtor_eq Flush_eq d g
        late_scope_def after_late_def initial_process_def DEFINE_API_PROFILER_def db_def
        counted_def ll_def LLONG_MIN_def LLONG_MAX_def)
  moreover have "delta late_scope = Some 1"
    using d by (simp add: delta_def late_scope_def)
  ultimately show ?thesis
    by (simp add: exact_ns_def late_scope_def after_late_def initial_process_def record_of_def
          db_def DEFINE_API_PROFILER_def)
qed

end
